theory Spec2Isabelle
  imports Complex_Main
begin

section \<open>JavaScript and Node library functions the program calls\<close>

text \<open>
  \<^verbatim>\<open>Array.prototype.slice(start, end)\<close>: a negative index counts from the end of the
  array, both indices are clamped to the array, and the result is empty when the end does
  not lie after the start.
\<close>

definition js_slice :: "'a list \<Rightarrow> int \<Rightarrow> int \<Rightarrow> 'a list" where
  "js_slice xs start fin =
     (let len = int (length xs);
          k = (if start < 0 then max (len + start) 0 else min start len);
          final = (if fin < 0 then max (len + fin) 0 else min fin len)
      in take (nat (final - k)) (drop (nat k) xs))"

text \<open>
  \<^verbatim>\<open>parseInt(string)\<close> with no radix: leading white space is skipped, then an optional sign,
  then an optional \<^verbatim>\<open>0x\<close> prefix (radix 16, otherwise radix 10), then the longest run of digits;
  the result is NaN (\<open>None\<close>) when that run is empty. White space is the ASCII white space, and
  the value is the exact integer: JavaScript numbers are exact below \<open>2^53\<close>.
\<close>

definition is_space :: "char \<Rightarrow> bool" where
  "is_space c = (of_char c \<in> {9, 10, 11, 12, 13, 32::nat})"

definition digit_value :: "nat \<Rightarrow> char \<Rightarrow> nat option" where
  "digit_value radix c =
     (let k = (of_char c :: nat);
          v = (if 48 \<le> k \<and> k \<le> 57 then Some (k - 48)
               else if 97 \<le> k \<and> k \<le> 122 then Some (k - 87)
               else if 65 \<le> k \<and> k \<le> 90 then Some (k - 55)
               else None)
      in case v of None \<Rightarrow> None | Some d \<Rightarrow> if d < radix then Some d else None)"

definition parseInt :: "string \<Rightarrow> int option" where
  "parseInt str =
     (let s = dropWhile is_space str;
          negative = (take 1 s = ''-'');
          s1 = (if take 1 s = ''+'' \<or> take 1 s = ''-'' then drop 1 s else s);
          hex = (take 2 s1 = ''0x'' \<or> take 2 s1 = ''0X'');
          s2 = (if hex then drop 2 s1 else s1);
          radix = (if hex then 16 else 10);
          z = takeWhile (\<lambda>c. digit_value radix c \<noteq> None) s2;
          n = foldl (\<lambda>a c. a * radix + the (digit_value radix c)) 0 z
      in if z = [] then None else Some (if negative then - int n else int n))"

text \<open>\<^verbatim>\<open>String.prototype.toLowerCase\<close> on the ASCII letters, and \<^verbatim>\<open>endsWith\<close>.\<close>

definition toLowerCase :: "string \<Rightarrow> string" where
  "toLowerCase s =
     map (\<lambda>c. if 65 \<le> (of_char c :: nat) \<and> (of_char c :: nat) \<le> 90
              then char_of ((of_char c :: nat) + 32) else c) s"

definition endsWith :: "string \<Rightarrow> string \<Rightarrow> bool" where
  "endsWith s suffix = (drop (length s - length suffix) s = suffix)"

text \<open>
  Node's \<^verbatim>\<open>path\<close> module, POSIX flavour. \<^verbatim>\<open>path.basename\<close> drops trailing slashes and
  returns what follows the last remaining slash. \<^verbatim>\<open>path.extname\<close> returns that component
  from its last dot on, and the empty string when there is no dot, when the only dot is the
  first character, or when the component is \<^verbatim>\<open>..\<close>. \<^verbatim>\<open>path.parse(p).name\<close> is the component
  without that extension.
\<close>

definition basename :: "string \<Rightarrow> string" where
  "basename p =
     rev (takeWhile (\<lambda>c. c \<noteq> CHR ''/'') (dropWhile (\<lambda>c. c = CHR ''/'') (rev p)))"

definition extname :: "string \<Rightarrow> string" where
  "extname p =
     (let c = basename p;
          startDot = length c - length (takeWhile (\<lambda>x. x \<noteq> CHR ''.'') (rev c)) - 1
      in if CHR ''.'' \<notin> set c \<or> startDot = 0 \<or> c = ''..'' then [] else drop startDot c)"

definition parse_name :: "string \<Rightarrow> string" where
  "parse_name p = take (length (basename p) - length (extname p)) (basename p)"

text \<open>
  \<^verbatim>\<open>path.join(a, b)\<close> skips empty arguments, joins the others with a slash and normalises:
  empty and \<^verbatim>\<open>.\<close> segments are dropped, a \<^verbatim>\<open>..\<close> segment removes the segment before it (or is
  kept when a relative path has nothing left to remove), a trailing slash is kept.
\<close>

fun split_slash :: "string \<Rightarrow> string list" where
  "split_slash [] = [[]]"
| "split_slash (c # cs) =
     (if c = CHR ''/'' then [] # split_slash cs
      else (case split_slash cs of [] \<Rightarrow> [[c]] | seg # segs \<Rightarrow> (c # seg) # segs))"

definition normalize_step :: "bool \<Rightarrow> string list \<Rightarrow> string \<Rightarrow> string list" where
  "normalize_step allowAboveRoot res seg =
     (if seg = [] \<or> seg = ''.'' then res
      else if seg = ''..'' then
        (case res of
           [] \<Rightarrow> if allowAboveRoot then [''..''] else []
         | t # ts \<Rightarrow>
             if t = ''..'' then (if allowAboveRoot then ''..'' # t # ts else t # ts) else ts)
      else seg # res)"

fun join_slash :: "string list \<Rightarrow> string" where
  "join_slash [] = []"
| "join_slash [seg] = seg"
| "join_slash (seg # t # segs) = seg @ ''/'' @ join_slash (t # segs)"

definition normalize :: "string \<Rightarrow> string" where
  "normalize p =
     (if p = [] then ''.''
      else
        let isAbsolute = (hd p = CHR ''/'');
            trailingSeparator = (last p = CHR ''/'');
            res = join_slash (rev (foldl (normalize_step (\<not> isAbsolute)) [] (split_slash p)))
        in if res = [] then (if isAbsolute then ''/'' else if trailingSeparator then ''./'' else ''.'')
           else (if isAbsolute then ''/'' else []) @ res @ (if trailingSeparator then ''/'' else []))"

definition path_join :: "string \<Rightarrow> string \<Rightarrow> string" where
  "path_join a b =
     (if a = [] \<and> b = [] then ''.''
      else if a = [] then normalize b
      else if b = [] then normalize a
      else normalize (a @ ''/'' @ b))"

text \<open>
  \<^verbatim>\<open>Promise.all(batch.map(op))\<close>: the result array holds, at every position, the value of the
  operation started for the item at that position. The operations of one batch interleave
  only at their awaits; the model runs them one after the other in input order, each on the
  state the previous one left.
\<close>

fun promise_all_map :: "('a \<Rightarrow> 's \<Rightarrow> 'r \<times> 's) \<Rightarrow> 'a list \<Rightarrow> 's \<Rightarrow> 'r list \<times> 's" where
  "promise_all_map op [] s = ([], s)"
| "promise_all_map op (x # xs) s =
     (let (r, s1) = op x s;
          (rs, s2) = promise_all_map op xs s1
      in (r # rs, s2))"

section \<open>The batch loop of downloadAll and extractAll\<close>

text \<open>
  \<^verbatim>\<open>
  const results = [];
  for (let i = 0; i < items.length; i += n) {
    const batch = items.slice(i, i + n);
    const batchResults = await Promise.all(batch.map(op));
    results.push(...batchResults);
    batchResults.forEach(result => { count(result) });
  }
  \<close>
  downloader.js (lines 189-206) and extract-only.js (lines 196-217) hold the same loop,
  over \<^verbatim>\<open>downloadUrls\<close> with \<^verbatim>\<open>concurrentDownloads\<close> and over \<^verbatim>\<open>archiveFiles\<close> with
  \<^verbatim>\<open>concurrentExtractions\<close>. It is modelled once, with the per-item operation \<open>op\<close> and the
  body \<open>count\<close> of the \<^verbatim>\<open>forEach\<close> as parameters. The loop runs forever when the step \<open>n\<close> is
  not positive and the list is not empty, so it is a partial function: \<open>None\<close> is the run
  that never returns. The second component of the accumulator records the slices the loop
  took, in order; the program does not keep them.
\<close>

partial_function (option) batch_loop ::
  "('a \<Rightarrow> 's \<Rightarrow> 'r \<times> 's) \<Rightarrow> ('r \<Rightarrow> 'c \<Rightarrow> 'c) \<Rightarrow> 'a list \<Rightarrow> int \<Rightarrow> int \<Rightarrow>
   'r list \<times> 'a list list \<times> 'c \<times> 's \<Rightarrow> ('r list \<times> 'a list list \<times> 'c \<times> 's) option" where
  "batch_loop op count items n i acc =
     (if i < int (length items) then
        (case acc of (results, batches, c, s) \<Rightarrow>
           (case promise_all_map op (js_slice items i (i + n)) s of (batchResults, s1) \<Rightarrow>
              batch_loop op count items n (i + n)
                (results @ batchResults, batches @ [js_slice items i (i + n)],
                 fold count batchResults c, s1)))
      else Some acc)"

declare batch_loop.simps [code]

section \<open>The environment: network, file system, timers\<close>

text \<open>
  axios, fs-extra, tar and the timer are not part of the repository. The model takes them
  as a record of primitives over a world \<open>'w\<close> that is left abstract: each call may fail with
  an error (the rejected promise, the \<^verbatim>\<open>throw\<close>) and may change the world. Every theorem holds
  whatever these primitives do.
\<close>

datatype error = Error (message: string)

type_synonym headers = "string \<Rightarrow> string option"

record stats =
  st_isFile :: bool
  st_size :: nat

text \<open>
  What \<^verbatim>\<open>fs.readdir(dir, {withFileTypes: true})\<close> and \<^verbatim>\<open>fs.stat\<close> answer during one walk of a
  directory: the listing of the directory or the error of the read, and for every entry
  either the answers for that subdirectory, the size of the regular file or the error of
  its \<^verbatim>\<open>stat\<close>, or an entry that is neither. A directory tree on a file system is finite.
\<close>

datatype dirent = Directory listing | RegularFile "error + nat" | OtherEntry
  and listing = Unreadable error | Entries "(string \<times> dirent) list"

record 'w env =
  axios_head :: "string \<Rightarrow> int \<Rightarrow> 'w \<Rightarrow> (error + headers) \<times> 'w"
  axios_get :: "string \<Rightarrow> int \<Rightarrow> 'w \<Rightarrow> (error + unit) \<times> 'w"
  streamPipeline :: "string \<Rightarrow> string \<Rightarrow> 'w \<Rightarrow> (error + nat) \<times> 'w"
  getFileName :: "string \<Rightarrow> headers \<Rightarrow> 'w \<Rightarrow> error + string"
  fs_pathExists :: "string \<Rightarrow> 'w \<Rightarrow> bool \<times> 'w"
  fs_stat :: "string \<Rightarrow> 'w \<Rightarrow> (error + stats) \<times> 'w"
  fs_ensureDir :: "string \<Rightarrow> 'w \<Rightarrow> (error + unit) \<times> 'w"
  fs_readdir :: "string \<Rightarrow> 'w \<Rightarrow> (error + string list) \<times> 'w"
  fs_walk :: "string \<Rightarrow> 'w \<Rightarrow> listing \<times> 'w"
  fs_remove :: "string \<Rightarrow> 'w \<Rightarrow> (error + unit) \<times> 'w"
  tar_extract :: "string \<Rightarrow> string \<Rightarrow> 'w \<Rightarrow> (error + unit) \<times> 'w"
  setTimeout :: "int \<Rightarrow> 'w \<Rightarrow> 'w"

text \<open>
  \<open>streamPipeline env url filePath\<close> stands for lines 136-152 of downloader.js: the write
  stream on \<open>filePath\<close> and the pipeline of the response body into it; its value is
  \<^verbatim>\<open>downloadedBytes\<close>. \<open>getFileName\<close> stands for the method of that name (lines 74-101), which
  rests on a regular expression, the URL parser and the clock, and may throw.

  The run records what it does: every call of a primitive with whether it returned without
  error, and the lines it logs in \<^verbatim>\<open>downloadFile\<close>, in \<^verbatim>\<open>extractTgzFile\<close>, in the \<^verbatim>\<open>catch\<close> blocks of
  \<^verbatim>\<open>findArchiveFiles\<close> and \<^verbatim>\<open>extractAll\<close>, and in the two summaries, as values rather than as
  formatted text. The banners, the lines from inside stream and tar callbacks and the
  progress line after each batch are left out: \<^verbatim>\<open>log\<close> only writes to the console.
\<close>

datatype call =
    Head string
  | Get string
  | Pipeline string string
  | PathExists string
  | Stat string
  | EnsureDir string
  | Readdir string
  | Walk string
  | Remove string
  | TarExtract string string
  | SetTimeout int

datatype logmsg =
    StartingDownload string int
  | AlreadyComplete string
  | SizeMismatch string
  | SuccessfullyDownloaded string nat
  | FailedToDownload string int string
  | RetryingIn int
  | StartingExtraction string string int
  | SuccessfullyExtracted string nat nat
  | DeletedSourceFile string
  | FailedToExtract string int string
  | FailedToScan string
  | FatalError string
  | SummaryCounts int int int
  | FailedItem string string
  | TotalDownloaded int
  | TotalExtracted int int

datatype event = IO call bool | Log logmsg

record 'w sys =
  world :: 'w
  trace :: "event list"

definition emit :: "logmsg \<Rightarrow> 'w sys \<Rightarrow> 'w sys" where
  "emit m st = st\<lparr>trace := trace st @ [Log m]\<rparr>"

definition io :: "call \<Rightarrow> ('w \<Rightarrow> (error + 'a) \<times> 'w) \<Rightarrow> 'w sys \<Rightarrow> (error + 'a) \<times> 'w sys" where
  "io c prim st =
     (case prim (world st) of
        (r, w) \<Rightarrow> (r, \<lparr>world = w, trace = trace st @ [IO c (\<not> isl r)]\<rparr>))"

definition pathExists :: "'w env \<Rightarrow> string \<Rightarrow> 'w sys \<Rightarrow> bool \<times> 'w sys" where
  "pathExists env p st =
     (case fs_pathExists env p (world st) of
        (b, w) \<Rightarrow> (b, \<lparr>world = w, trace = trace st @ [IO (PathExists p) True]\<rparr>))"

definition delay :: "'w env \<Rightarrow> int \<Rightarrow> 'w sys \<Rightarrow> 'w sys" where
  "delay env ms st =
     \<lparr>world = setTimeout env ms (world st), trace = trace st @ [IO (SetTimeout ms) True]\<rparr>"

section \<open>Configuration and counters\<close>

text \<open>
  The fields the constructors of \<^verbatim>\<open>FileDownloader\<close> and \<^verbatim>\<open>ArchiveExtractor\<close> set once, and the
  counters that only \<^verbatim>\<open>downloadAll\<close> and \<^verbatim>\<open>extractAll\<close> write. \<^verbatim>\<open>this.total\<close> is
  \<^verbatim>\<open>downloadUrls.length\<close>.
\<close>

record config =
  downloadDirectory :: string
  concurrentDownloads :: int
  timeout :: int
  retryAttempts :: int
  retryDelay :: int
  downloadUrls :: "string list"
  sourceDirectory :: string
  destinationDirectory :: string
  deleteAfterUnzip :: bool
  concurrentExtractions :: int

record counters =
  completed :: int
  failed :: int
  extractedFiles :: int
  failedExtractions :: int

definition total :: "config \<Rightarrow> int" where
  "total this = int (length (downloadUrls this))"

definition new_counters :: counters where
  "new_counters = \<lparr>completed = 0, failed = 0, extractedFiles = 0, failedExtractions = 0\<rparr>"

section \<open>downloader.js\<close>

text \<open>
  The three shapes of object \<^verbatim>\<open>downloadFile\<close> returns:
  \<^verbatim>\<open>{success: true, fileName, filePath, skipped: true}\<close>,
  \<^verbatim>\<open>{success: true, fileName, filePath, bytes}\<close> and \<^verbatim>\<open>{success: false, error, url}\<close>.
\<close>

datatype download_result =
    Skipped string string
  | Downloaded string string nat
  | DownloadFailed string string

fun success :: "download_result \<Rightarrow> bool" where
  "success (Skipped fileName filePath) = True"
| "success (Downloaded fileName filePath bytes) = True"
| "success (DownloadFailed err url) = False"

fun bytes :: "download_result \<Rightarrow> int" where
  "bytes (Downloaded fileName filePath n) = int n"
| "bytes r = 0"

text \<open>\<^verbatim>\<open>parseInt(headResponse.headers['content-length']) || 0\<close>\<close>

definition contentLength :: "headers \<Rightarrow> int" where
  "contentLength hdrs =
     (case hdrs ''content-length'' of
        None \<Rightarrow> 0
      | Some v \<Rightarrow> (case parseInt v of None \<Rightarrow> 0 | Some n \<Rightarrow> n))"

text \<open>Lines 125-155: the GET request, the streamed write, the success value.\<close>

definition download_body ::
  "'w env \<Rightarrow> config \<Rightarrow> string \<Rightarrow> string \<Rightarrow> string \<Rightarrow> 'w sys \<Rightarrow> (error + download_result) \<times> 'w sys" where
  "download_body env this url fileName filePath st =
     (case io (Get url) (axios_get env url (timeout this)) st of
        (Inl e, st1) \<Rightarrow> (Inl e, st1)
      | (Inr response, st1) \<Rightarrow>
          (case io (Pipeline url filePath) (streamPipeline env url filePath) st1 of
             (Inl e, st2) \<Rightarrow> (Inl e, st2)
           | (Inr downloadedBytes, st2) \<Rightarrow>
               (Inr (Downloaded fileName filePath downloadedBytes),
                emit (SuccessfullyDownloaded fileName downloadedBytes) st2)))"

text \<open>Lines 104-155: the body of the \<^verbatim>\<open>try\<close>; \<open>Inl\<close> is the error the \<^verbatim>\<open>catch\<close> receives.\<close>

definition download_try ::
  "'w env \<Rightarrow> config \<Rightarrow> string \<Rightarrow> int \<Rightarrow> 'w sys \<Rightarrow> (error + download_result) \<times> 'w sys" where
  "download_try env this url attempt st =
     (case io (Head url) (axios_head env url (timeout this))
             (emit (StartingDownload url attempt) st) of
        (Inl e, st1) \<Rightarrow> (Inl e, st1)
      | (Inr hdrs, st1) \<Rightarrow>
          (case getFileName env url hdrs (world st1) of
             Inl e \<Rightarrow> (Inl e, st1)
           | Inr fileName \<Rightarrow>
               (let filePath = path_join (downloadDirectory this) fileName in
                case pathExists env filePath st1 of
                  (True, st2) \<Rightarrow>
                    (case io (Stat filePath) (fs_stat env filePath) st2 of
                       (Inl e, st3) \<Rightarrow> (Inl e, st3)
                     | (Inr stats, st3) \<Rightarrow>
                         if contentLength hdrs > 0 \<and> int (st_size stats) = contentLength hdrs
                         then (Inr (Skipped fileName filePath), emit (AlreadyComplete fileName) st3)
                         else download_body env this url fileName filePath
                                (emit (SizeMismatch fileName) st3))
                | (False, st2) \<Rightarrow> download_body env this url fileName filePath st2)))"

text \<open>\<^verbatim>\<open>downloadFile(url, attempt)\<close>: the \<^verbatim>\<open>try\<close> and the \<^verbatim>\<open>catch\<close> of lines 157-167.\<close>

function downloadFile ::
  "'w env \<Rightarrow> config \<Rightarrow> string \<Rightarrow> int \<Rightarrow> 'w sys \<Rightarrow> download_result \<times> 'w sys" where
  "downloadFile env this url attempt st =
     (case download_try env this url attempt st of
        (Inr result, st1) \<Rightarrow> (result, st1)
      | (Inl e, st1) \<Rightarrow>
          (if attempt < retryAttempts this
           then downloadFile env this url (attempt + 1)
                  (delay env (retryDelay this)
                     (emit (RetryingIn (retryDelay this))
                        (emit (FailedToDownload url attempt (message e)) st1)))
           else (DownloadFailed (message e) url,
                 emit (FailedToDownload url attempt (message e)) st1)))"
  by pat_completeness auto
termination
  by (relation "measure (\<lambda>(env, this, url, attempt, st). nat (retryAttempts this - attempt))") auto

declare downloadFile.simps [simp del]

definition ensureDownloadDirectory :: "'w env \<Rightarrow> config \<Rightarrow> 'w sys \<Rightarrow> (error + unit) \<times> 'w sys" where
  "ensureDownloadDirectory env this st =
     io (EnsureDir (downloadDirectory this)) (fs_ensureDir env (downloadDirectory this)) st"

text \<open>The body of the \<^verbatim>\<open>forEach\<close> of lines 197-203.\<close>

definition count_download :: "download_result \<Rightarrow> counters \<Rightarrow> counters" where
  "count_download result c =
     (if success result then c\<lparr>completed := completed c + 1\<rparr> else c\<lparr>failed := failed c + 1\<rparr>)"

text \<open>
  Lines 221 and 230-232: \<^verbatim>\<open>results.filter(r => !r.success)\<close> and
  \<^verbatim>\<open>results.filter(r => r.success && r.bytes).reduce((sum, r) => sum + r.bytes, 0)\<close>. A result
  without \<^verbatim>\<open>bytes\<close>, or with zero bytes, is falsy there.
\<close>

definition failedResults :: "download_result list \<Rightarrow> download_result list" where
  "failedResults results = filter (\<lambda>r. \<not> success r) results"

definition totalBytes :: "download_result list \<Rightarrow> int" where
  "totalBytes results =
     foldl (\<lambda>sum r. sum + bytes r) 0 (filter (\<lambda>r. success r \<and> bytes r \<noteq> 0) results)"

fun failed_item :: "download_result \<Rightarrow> logmsg" where
  "failed_item (DownloadFailed err url) = FailedItem url err"
| "failed_item r = FailedItem [] []"

definition download_summary :: "config \<Rightarrow> counters \<Rightarrow> download_result list \<Rightarrow> 'w sys \<Rightarrow> 'w sys" where
  "download_summary this c results st =
     st\<lparr>trace := trace st
          @ [Log (SummaryCounts (total this) (completed c) (failed c))]
          @ map (\<lambda>r. Log (failed_item r)) (failedResults results)
          @ (if totalBytes results > 0 then [Log (TotalDownloaded (totalBytes results))] else [])\<rparr>"

text \<open>
  \<^verbatim>\<open>downloadAll()\<close>: \<open>None\<close> when the loop never ends, \<open>Some (Inl e, ...)\<close> when
  \<^verbatim>\<open>ensureDownloadDirectory\<close> throws, \<open>Some (Inr results, ...)\<close> when it returns \<^verbatim>\<open>results\<close>. The
  progress line after each batch is not recorded.
\<close>

definition downloadAll ::
  "'w env \<Rightarrow> config \<Rightarrow> counters \<Rightarrow> 'w sys \<Rightarrow>
   ((error + download_result list) \<times> counters \<times> 'w sys) option" where
  "downloadAll env this c st =
     (case ensureDownloadDirectory env this st of
        (Inl e, st1) \<Rightarrow> Some (Inl e, c, st1)
      | (Inr u, st1) \<Rightarrow>
          (case batch_loop (\<lambda>url. downloadFile env this url 1) count_download
                  (downloadUrls this) (concurrentDownloads this) 0 ([], [], c, st1) of
             None \<Rightarrow> None
           | Some (results, batches, c', st2) \<Rightarrow>
               Some (Inr results, c', download_summary this c' results st2)))"

section \<open>extract-only.js\<close>

text \<open>
  \<^verbatim>\<open>isSupportedArchive(filename)\<close>, lines 53-56. \<^verbatim>\<open>path.extname\<close> never returns \<^verbatim>\<open>.tar.gz\<close>; the
  list is kept as the source has it.
\<close>

definition isSupportedArchive :: "string \<Rightarrow> bool" where
  "isSupportedArchive filename =
     (toLowerCase (extname filename) \<in> set [''.tgz'', ''.tar.gz'', ''.tar'', ''.gz'']
      \<or> endsWith filename ''.tar.gz'')"

text \<open>
  \<^verbatim>\<open>getDirectoryStats(dirPath)\<close>, lines 58-83, as a function of the answers the walk gets. The
  \<^verbatim>\<open>try\<close> encloses the whole loop: a failed \<^verbatim>\<open>readdir\<close> gives the zero counts, a failed \<^verbatim>\<open>stat\<close>
  ends the loop of its directory with the counts reached so far, and the \<^verbatim>\<open>catch\<close> only logs.
  The result is the pair of \<^verbatim>\<open>size\<close> and \<^verbatim>\<open>files\<close>.
\<close>

fun getDirectoryStats :: "listing \<Rightarrow> nat \<times> nat"
  and walk_items :: "(string \<times> dirent) list \<Rightarrow> nat \<times> nat \<Rightarrow> nat \<times> nat" where
  "getDirectoryStats (Unreadable e) = (0, 0)"
| "getDirectoryStats (Entries items) = walk_items items (0, 0)"
| "walk_items [] acc = acc"
| "walk_items ((name, Directory sub) # rest) (totalSize, fileCount) =
     walk_items rest
       (totalSize + fst (getDirectoryStats sub), fileCount + snd (getDirectoryStats sub))"
| "walk_items ((name, RegularFile (Inr sz)) # rest) (totalSize, fileCount) =
     walk_items rest (totalSize + sz, fileCount + 1)"
| "walk_items ((name, RegularFile (Inl e)) # rest) acc = acc"
| "walk_items ((name, OtherEntry) # rest) acc = walk_items rest acc"

text \<open>
  The two shapes of object \<^verbatim>\<open>extractTgzFile\<close> returns:
  \<^verbatim>\<open>{success: true, fileName, sourceFilePath, destinationDir, extractedFiles, extractedSize}\<close>
  and \<^verbatim>\<open>{success: false, error, sourceFilePath}\<close>.
\<close>

datatype extract_result =
    Extracted string string string nat nat
  | ExtractFailed string string

fun extracted :: "extract_result \<Rightarrow> bool" where
  "extracted (Extracted fileName sourceFilePath destinationDir files sz) = True"
| "extracted (ExtractFailed err sourceFilePath) = False"

fun extractedFiles_of :: "extract_result \<Rightarrow> int" where
  "extractedFiles_of (Extracted fileName sourceFilePath destinationDir files sz) = int files"
| "extractedFiles_of r = 0"

fun extractedSize_of :: "extract_result \<Rightarrow> int" where
  "extractedSize_of (Extracted fileName sourceFilePath destinationDir files sz) = int sz"
| "extractedSize_of r = 0"

text \<open>Lines 86-123: the body of the \<^verbatim>\<open>try\<close> of \<^verbatim>\<open>extractTgzFile\<close>.\<close>

definition extract_try ::
  "'w env \<Rightarrow> config \<Rightarrow> string \<Rightarrow> string \<Rightarrow> int \<Rightarrow> 'w sys \<Rightarrow> (error + extract_result) \<times> 'w sys" where
  "extract_try env this sourceFilePath destinationDir attempt st =
     (let fileName = basename sourceFilePath in
      case io (EnsureDir destinationDir) (fs_ensureDir env destinationDir)
              (emit (StartingExtraction fileName destinationDir attempt) st) of
        (Inl e, st1) \<Rightarrow> (Inl e, st1)
      | (Inr u, st1) \<Rightarrow>
          (case io (TarExtract sourceFilePath destinationDir)
                   (tar_extract env sourceFilePath destinationDir) st1 of
             (Inl e, st2) \<Rightarrow> (Inl e, st2)
           | (Inr u, st2) \<Rightarrow>
               (case fs_walk env destinationDir (world st2) of
                  (answers, w) \<Rightarrow>
                    (let stats = getDirectoryStats answers;
                         st3 = emit (SuccessfullyExtracted fileName (snd stats) (fst stats))
                                 \<lparr>world = w, trace = trace st2 @ [IO (Walk destinationDir) True]\<rparr>;
                         result = Extracted fileName sourceFilePath destinationDir (snd stats) (fst stats)
                     in if deleteAfterUnzip this then
                          (case io (Remove sourceFilePath) (fs_remove env sourceFilePath) st3 of
                             (Inl e, st4) \<Rightarrow> (Inl e, st4)
                           | (Inr u, st4) \<Rightarrow> (Inr result, emit (DeletedSourceFile fileName) st4))
                        else (Inr result, st3)))))"

text \<open>\<^verbatim>\<open>extractTgzFile(sourceFilePath, destinationDir, attempt)\<close> with the \<^verbatim>\<open>catch\<close> of lines 125-135.\<close>

function extractTgzFile ::
  "'w env \<Rightarrow> config \<Rightarrow> string \<Rightarrow> string \<Rightarrow> int \<Rightarrow> 'w sys \<Rightarrow> extract_result \<times> 'w sys" where
  "extractTgzFile env this sourceFilePath destinationDir attempt st =
     (case extract_try env this sourceFilePath destinationDir attempt st of
        (Inr result, st1) \<Rightarrow> (result, st1)
      | (Inl e, st1) \<Rightarrow>
          (if attempt < retryAttempts this
           then extractTgzFile env this sourceFilePath destinationDir (attempt + 1)
                  (delay env (retryDelay this)
                     (emit (RetryingIn (retryDelay this))
                        (emit (FailedToExtract sourceFilePath attempt (message e)) st1)))
           else (ExtractFailed (message e) sourceFilePath,
                 emit (FailedToExtract sourceFilePath attempt (message e)) st1)))"
  by pat_completeness auto
termination
  by (relation "measure (\<lambda>(env, this, src, dst, attempt, st). nat (retryAttempts this - attempt))")
    auto

declare extractTgzFile.simps [simp del]

text \<open>\<^verbatim>\<open>findArchiveFiles()\<close>, lines 138-179; an archive record is \<^verbatim>\<open>{path, name, size}\<close>.\<close>

record archive =
  a_path :: string
  a_name :: string
  a_size :: nat

fun scan_files ::
  "'w env \<Rightarrow> config \<Rightarrow> string list \<Rightarrow> archive list \<Rightarrow> 'w sys \<Rightarrow> (error + archive list) \<times> 'w sys" where
  "scan_files env this [] archiveFiles st = (Inr archiveFiles, st)"
| "scan_files env this (file # files) archiveFiles st =
     (let filePath = path_join (sourceDirectory this) file in
      case io (Stat filePath) (fs_stat env filePath) st of
        (Inl e, st1) \<Rightarrow> (Inl e, st1)
      | (Inr stats, st1) \<Rightarrow>
          scan_files env this files
            (if st_isFile stats \<and> isSupportedArchive file
             then archiveFiles @ [\<lparr>a_path = filePath, a_name = file, a_size = st_size stats\<rparr>]
             else archiveFiles)
            st1)"

definition findArchiveFiles :: "'w env \<Rightarrow> config \<Rightarrow> 'w sys \<Rightarrow> (error + archive list) \<times> 'w sys" where
  "findArchiveFiles env this st =
     (case pathExists env (sourceDirectory this) st of
        (False, st1) \<Rightarrow>
          (Inl (Error (''Source directory does not exist: '' @ sourceDirectory this)),
           emit (FailedToScan (''Source directory does not exist: '' @ sourceDirectory this)) st1)
      | (True, st1) \<Rightarrow>
          (case io (Readdir (sourceDirectory this)) (fs_readdir env (sourceDirectory this)) st1 of
             (Inl e, st2) \<Rightarrow> (Inl e, emit (FailedToScan (message e)) st2)
           | (Inr files, st2) \<Rightarrow>
               (case scan_files env this files [] st2 of
                  (Inl e, st3) \<Rightarrow> (Inl e, emit (FailedToScan (message e)) st3)
                | (Inr archiveFiles, st3) \<Rightarrow> (Inr archiveFiles, st3))))"

text \<open>
  Line 200, the directory an archive is extracted into:
  \<^verbatim>\<open>path.join(this.destinationDirectory, path.parse(archive.name).name)\<close>.
\<close>

definition destDir :: "config \<Rightarrow> archive \<Rightarrow> string" where
  "destDir this archive = path_join (destinationDirectory this) (parse_name (a_name archive))"

definition extract_archive :: "'w env \<Rightarrow> config \<Rightarrow> archive \<Rightarrow> 'w sys \<Rightarrow> extract_result \<times> 'w sys" where
  "extract_archive env this archive st =
     extractTgzFile env this (a_path archive) (destDir this archive) 1 st"

definition count_extraction :: "extract_result \<Rightarrow> counters \<Rightarrow> counters" where
  "count_extraction result c =
     (if extracted result then c\<lparr>extractedFiles := extractedFiles c + 1\<rparr>
      else c\<lparr>failedExtractions := failedExtractions c + 1\<rparr>)"

text \<open>Lines 233 and 242-248 of extract-only.js.\<close>

definition failedExtractionResults :: "extract_result list \<Rightarrow> extract_result list" where
  "failedExtractionResults results = filter (\<lambda>r. \<not> extracted r) results"

definition totalExtractedFiles :: "extract_result list \<Rightarrow> int" where
  "totalExtractedFiles results =
     foldl (\<lambda>sum r. sum + extractedFiles_of r) 0
       (filter (\<lambda>r. extracted r \<and> extractedFiles_of r \<noteq> 0) results)"

definition totalExtractedSize :: "extract_result list \<Rightarrow> int" where
  "totalExtractedSize results =
     foldl (\<lambda>sum r. sum + extractedSize_of r) 0
       (filter (\<lambda>r. extracted r \<and> extractedSize_of r \<noteq> 0) results)"

fun failed_extraction :: "extract_result \<Rightarrow> logmsg" where
  "failed_extraction (ExtractFailed err sourceFilePath) = FailedItem sourceFilePath err"
| "failed_extraction r = FailedItem [] []"

definition extract_summary ::
  "archive list \<Rightarrow> counters \<Rightarrow> extract_result list \<Rightarrow> 'w sys \<Rightarrow> 'w sys" where
  "extract_summary archiveFiles c results st =
     st\<lparr>trace := trace st
          @ [Log (SummaryCounts (int (length archiveFiles)) (extractedFiles c) (failedExtractions c))]
          @ map (\<lambda>r. Log (failed_extraction r)) (failedExtractionResults results)
          @ (if totalExtractedSize results > 0
             then [Log (TotalExtracted (totalExtractedFiles results) (totalExtractedSize results))]
             else [])\<rparr>"

text \<open>
  \<^verbatim>\<open>extractAll()\<close>, lines 181-260: \<open>Some (Inl e, ...)\<close> is the error its \<^verbatim>\<open>catch\<close> logs and throws
  again, \<open>None\<close> the loop that never ends.
\<close>

definition extractAll ::
  "'w env \<Rightarrow> config \<Rightarrow> counters \<Rightarrow> 'w sys \<Rightarrow>
   ((error + extract_result list) \<times> counters \<times> 'w sys) option" where
  "extractAll env this c st =
     (case io (EnsureDir (destinationDirectory this))
              (fs_ensureDir env (destinationDirectory this)) st of
        (Inl e, st1) \<Rightarrow> Some (Inl e, c, emit (FatalError (message e)) st1)
      | (Inr u, st1) \<Rightarrow>
          (case findArchiveFiles env this st1 of
             (Inl e, st2) \<Rightarrow> Some (Inl e, c, emit (FatalError (message e)) st2)
           | (Inr archiveFiles, st2) \<Rightarrow>
               if length archiveFiles = 0 then Some (Inr [], c, st2)
               else
                 (case batch_loop (extract_archive env this) count_extraction
                         archiveFiles (concurrentExtractions this) 0 ([], [], c, st2) of
                    None \<Rightarrow> None
                  | Some (results, batches, c', st3) \<Rightarrow>
                      Some (Inr results, c', extract_summary archiveFiles c' results st3))))"

text \<open>The slices of a list taken \<open>n\<close> items at a time, for the proofs about the loop.\<close>

function chunks :: "nat \<Rightarrow> 'a list \<Rightarrow> 'a list list" where
  "chunks n xs = (if n = 0 \<or> xs = [] then [] else take n xs # chunks n (drop n xs))"
  by pat_completeness auto
termination
  by (relation "measure (\<lambda>(n, xs). length xs)") auto

declare chunks.simps [simp del]

section \<open>Attempts and waits\<close>





text \<open>
  The events that mark an attempt (the log line that opens the \<^verbatim>\<open>try\<close>) or a wait, and the
  sequence of \<open>n\<close> attempts numbered from \<open>a\<close> with a wait of \<open>ms\<close> between consecutive ones.
\<close>

fun retry_event :: "event \<Rightarrow> bool" where
  "retry_event (Log (StartingDownload url attempt)) = True"
| "retry_event (Log (StartingExtraction fileName destinationDir attempt)) = True"
| "retry_event (IO (SetTimeout ms) ok) = True"
| "retry_event e = False"


text \<open>The events a run adds to the trace, from the state it starts in to the state it leaves.\<close>

definition new_events :: "'w sys \<Rightarrow> 'w sys \<Rightarrow> event list" where
  "new_events st st' = drop (length (trace st)) (trace st')"


section \<open>Concrete environments and configurations for the examples\<close>

text \<open>
  A world that is a counter of the HEAD requests made so far. In \<open>env_ok\<close> every call
  succeeds: the server announces 5 bytes, nothing exists at the destination, the source
  directory lists \<^verbatim>\<open>a.tgz\<close>, \<^verbatim>\<open>a.tar\<close> and \<^verbatim>\<open>notes.txt\<close>, and an extracted directory holds one file
  of 7 bytes.
\<close>

definition hdrs5 :: headers where
  "hdrs5 = (\<lambda>k. if k = ''content-length'' then Some ''5'' else None)"

definition env_ok :: "nat env" where
  "env_ok =
     \<lparr>axios_head = (\<lambda>url t w. (Inr hdrs5, Suc w)),
      axios_get = (\<lambda>url t w. (Inr (), w)),
      streamPipeline = (\<lambda>url filePath w. (Inr 5, w)),
      getFileName = (\<lambda>url hdrs w. Inr (basename url)),
      fs_pathExists = (\<lambda>p w. (False, w)),
      fs_stat = (\<lambda>p w. (Inr \<lparr>st_isFile = True, st_size = 5\<rparr>, w)),
      fs_ensureDir = (\<lambda>p w. (Inr (), w)),
      fs_readdir = (\<lambda>p w. (Inr [''a.tgz'', ''a.tar'', ''notes.txt''], w)),
      fs_walk = (\<lambda>p w. (Entries [(''f'', RegularFile (Inr 7))], w)),
      fs_remove = (\<lambda>p w. (Inr (), w)),
      tar_extract = (\<lambda>src dst w. (Inr (), w)),
      setTimeout = (\<lambda>ms w. w)\<rparr>"



text \<open>In \<open>env_one_bad\<close> only the URL \<^verbatim>\<open>http://h/bad\<close> is refused.\<close>

definition env_one_bad :: "nat env" where
  "env_one_bad =
     env_ok\<lparr>axios_head :=
       (\<lambda>url t w. (if url = ''http://h/bad'' then Inl (Error ''ECONNREFUSED'') else Inr hdrs5,
                    Suc w))\<rparr>"

text \<open>In \<open>env_present\<close> the file is already at the destination, with 5 bytes.\<close>

definition env_present :: "nat env" where
  "env_present = env_ok\<lparr>fs_pathExists := (\<lambda>p w. (True, w))\<rparr>"



text \<open>In \<open>env_corrupt\<close> no archive unpacks; in \<open>env_unreadable\<close> the walk cannot read the directory.\<close>

definition env_corrupt :: "nat env" where
  "env_corrupt = env_present\<lparr>tar_extract := (\<lambda>src dst w. (Inl (Error ''TAR_BAD_ARCHIVE''), w))\<rparr>"


definition env_unreadable :: "nat env" where
  "env_unreadable = env_present\<lparr>fs_walk := (\<lambda>p w. (Unreadable (Error ''EACCES''), w))\<rparr>"

definition cfg :: config where
  "cfg =
     \<lparr>downloadDirectory = ''/dl'',
      concurrentDownloads = 3,
      timeout = 30000,
      retryAttempts = 3,
      retryDelay = 5000,
      downloadUrls = [''http://h/1'', ''http://h/2'', ''http://h/bad'', ''http://h/4'', ''http://h/5''],
      sourceDirectory = ''/src'',
      destinationDirectory = ''/dst'',
      deleteAfterUnzip = True,
      concurrentExtractions = 2\<rparr>"

definition start :: "nat sys" where
  "start = \<lparr>world = 0, trace = []\<rparr>"

section \<open>Facts about the library functions\<close>

lemma js_slice_window:
  assumes "i \<le> length xs"
  shows "js_slice xs (int i) (int i + int n) = take n (drop i xs)"
proof -
  have k: "min (int i) (int (length xs)) = int i"
    using assms by simp
  have m: "nat (min (int i + int n) (int (length xs)) - int i) = min n (length xs - i)"
    using assms by linarith
  have "js_slice xs (int i) (int i + int n) = take (min n (length xs - i)) (drop i xs)"
    unfolding js_slice_def Let_def using k m by simp
  then show ?thesis
    by (simp add: min_def)
qed

lemma promise_all_map_append:
  "promise_all_map op (xs @ ys) s =
     (fst (promise_all_map op xs s) @ fst (promise_all_map op ys (snd (promise_all_map op xs s))),
      snd (promise_all_map op ys (snd (promise_all_map op xs s))))"
  by (induction xs arbitrary: s) (simp_all add: split_beta)

lemma length_promise_all_map: "length (fst (promise_all_map op xs s)) = length xs"
  by (induction xs arbitrary: s) (simp_all add: split_beta)


section \<open>The batch loop returns, and what it returns\<close>

lemma split_drop: "drop i items = take n (drop i items) @ drop (i + n) items"
  by (metis append_take_drop_id drop_drop add.commute)

lemma chunks_step:
  "0 < n \<Longrightarrow> i < length items \<Longrightarrow>
   chunks n (drop i items) = take n (drop i items) # chunks n (drop (i + n) items)"
  by (subst chunks.simps) (simp add: add.commute)

lemma batch_loop_done:
  assumes "\<not> i < int (length items)"
  shows "batch_loop op count items n i acc = Some acc"
  using assms by (subst batch_loop.simps) simp

lemma batch_loop_step:
  assumes "i < length items"
  shows "batch_loop op count items (int n) (int i) (res, bs, c, s) =
        batch_loop op count items (int n) (int (i + n))
          (res @ fst (promise_all_map op (take n (drop i items)) s),
           bs @ [take n (drop i items)],
           fold count (fst (promise_all_map op (take n (drop i items)) s)) c,
           snd (promise_all_map op (take n (drop i items)) s))"
proof -
  have w: "js_slice items (int i) (int i + int n) = take n (drop i items)"
    using assms by (simp add: js_slice_window)
  show ?thesis
    using assms by (subst batch_loop.simps) (simp add: w split_beta)
qed

lemma batch_loop_run:
  assumes n: "0 < n"
  shows "batch_loop op count items (int n) (int i) (res, bs, c, s) =
     Some (res @ fst (promise_all_map op (drop i items) s),
           bs @ chunks n (drop i items),
           fold count (fst (promise_all_map op (drop i items) s)) c,
           snd (promise_all_map op (drop i items) s))"
proof (induction "length items - i" arbitrary: i res bs c s rule: less_induct)
  case less
  show ?case
  proof (cases "i < length items")
    case False
    then have "chunks n (drop i items) = []"
      by (subst chunks.simps) simp
    with False show ?thesis
      by (simp add: batch_loop_done)
  next
    case True
    have lt: "length items - (i + n) < length items - i"
      using True n by arith
    let ?b = "take n (drop i items)"
    let ?rest = "drop (i + n) items"
    have run: "promise_all_map op (drop i items) s =
        (fst (promise_all_map op ?b s) @ fst (promise_all_map op ?rest (snd (promise_all_map op ?b s))),
         snd (promise_all_map op ?rest (snd (promise_all_map op ?b s))))"
      by (subst split_drop [of i items n]) (rule promise_all_map_append)
    show ?thesis
      unfolding batch_loop_step [OF True] less.hyps [OF lt] run chunks_step [OF n True]
      by simp
  qed
qed

lemma batch_loop_from_start:
  assumes "0 < n"
  shows "batch_loop op count items n 0 ([], [], c, s) =
     Some (fst (promise_all_map op items s),
           chunks (nat n) items,
           fold count (fst (promise_all_map op items s)) c,
           snd (promise_all_map op items s))"
  using batch_loop_run [of "nat n" op count items 0 "[]" "[]" c s] assms by simp

lemma concat_chunks: "0 < n \<Longrightarrow> concat (chunks n xs) = xs"
proof (induction n xs rule: chunks.induct)
  case (1 n xs)
  then show ?case
    by (subst chunks.simps) simp
qed

lemma chunks_sizes:
  "0 < n \<Longrightarrow> b \<in> set (chunks n xs) \<Longrightarrow> 0 < length b \<and> length b \<le> n"
proof (induction n xs rule: chunks.induct)
  case (1 n xs)
  from "1.prems" have ne: "xs \<noteq> []"
    by (subst (asm) chunks.simps) (auto split: if_splits)
  from "1.prems" ne have "b = take n xs \<or> b \<in> set (chunks n (drop n xs))"
    by (subst (asm) chunks.simps) simp
  with "1.IH" "1.prems" ne show ?case
    by auto
qed

lemma chunks_butlast_full:
  "0 < n \<Longrightarrow> b \<in> set (butlast (chunks n xs)) \<Longrightarrow> length b = n"
proof (induction n xs rule: chunks.induct)
  case (1 n xs)
  from "1.prems" have ne: "xs \<noteq> []"
    by (subst (asm) chunks.simps) (auto split: if_splits)
  have unfold: "chunks n xs = take n xs # chunks n (drop n xs)"
    using "1.prems" ne by (subst chunks.simps) simp
  show ?case
  proof (cases "chunks n (drop n xs) = []")
    case True
    with "1.prems" unfold show ?thesis by simp
  next
    case False
    then have more: "drop n xs \<noteq> []"
      by (subst (asm) chunks.simps) (auto split: if_splits)
    from "1.prems" unfold False
    have "b = take n xs \<or> b \<in> set (butlast (chunks n (drop n xs)))"
      by simp
    with "1.IH" "1.prems" ne more show ?thesis
      by auto
  qed
qed

lemma ceil_div_step: "0 < (n::nat) \<Longrightarrow> 0 < l \<Longrightarrow> (l + n - 1) div n = (l - 1) div n + 1"
proof -
  assume n: "0 < n" and l: "0 < l"
  have "(l - 1 + n) div n = (l - 1) div n + 1"
    using n by simp
  moreover have "l + n - 1 = l - 1 + n"
    using l by linarith
  ultimately show ?thesis
    by (simp only:)
qed

lemma ceil_div_rest: "0 < (n::nat) \<Longrightarrow> (l - n + n - 1) div n = (l - 1) div n"
proof (cases "n \<le> l")
  case True
  then show ?thesis by simp
next
  case False
  assume "0 < n"
  with False have "l - n + n - 1 < n" "l - 1 < n"
    by linarith+
  then show ?thesis by (simp only: div_less)
qed

lemma length_chunks:
  "0 < n \<Longrightarrow> length (chunks n xs) = (length xs + n - 1) div n"
proof (induction n xs rule: chunks.induct)
  case (1 n xs)
  show ?case
  proof (cases "xs = []")
    case True
    with "1.prems" show ?thesis
      by (subst chunks.simps) simp
  next
    case False
    then have pos: "0 < length xs" by simp
    have unfold: "chunks n xs = take n xs # chunks n (drop n xs)"
      using "1.prems" False by (subst chunks.simps) simp
    have "length (chunks n (drop n xs)) = (length xs - n + n - 1) div n"
      using "1.IH" "1.prems" False by simp
    then have "length (chunks n (drop n xs)) = (length xs - 1) div n"
      by (simp only: ceil_div_rest [OF "1.prems"])
    then show ?thesis
      by (simp only: unfold ceil_div_step [OF "1.prems" pos] list.size)
  qed
qed

lemma ceiling_div:
  fixes a n :: nat
  assumes "0 < n"
  shows "\<lceil>real a / real n\<rceil> = int ((a + n - 1) div n)"
proof -
  define k where "k = (a + n - 1) div n"
  have eq: "k * n + (a + n - 1) mod n = a + n - 1"
    unfolding k_def by simp
  have "(a + n - 1) mod n < n"
    using assms by simp
  with eq have lo: "a \<le> k * n" and hi: "k * n < a + n"
    using assms by linarith+
  from lo have "real a \<le> real k * real n"
    by (metis of_nat_le_iff of_nat_mult)
  then have up: "real a / real n \<le> real k"
    using assms by (simp add: divide_le_eq)
  from hi have "real k * real n < real a + real n"
    by (metis of_nat_less_iff of_nat_mult of_nat_add)
  then have down: "real k - 1 < real a / real n"
    using assms by (simp add: less_divide_eq algebra_simps)
  have "\<lceil>real a / real n\<rceil> = int k"
    by (rule ceiling_unique) (use up down in simp_all)
  then show ?thesis
    by (simp add: k_def)
qed

section \<open>C5: the batches partition the worklist\<close>

text \<open>
  C5. For every worklist and every positive batch size the loop returns, and the slices it
  took are contiguous and cover the worklist exactly once (their concatenation is the
  worklist), every slice but the last has exactly the batch size, no slice is empty or
  larger than the batch size, and the number of slices is the ceiling of the length of the
  worklist divided by the batch size. The loop is the one of \<^verbatim>\<open>downloadAll\<close> and \<^verbatim>\<open>extractAll\<close>.
\<close>

theorem batches_partition_worklist:
  assumes "0 < n"
  shows "\<exists>results batches c' s'.
           batch_loop op count items n 0 ([], [], c, s) = Some (results, batches, c', s')
         \<and> concat batches = items
         \<and> (\<forall>b \<in> set (butlast batches). int (length b) = n)
         \<and> (\<forall>b \<in> set batches. 0 < length b \<and> int (length b) \<le> n)
         \<and> int (length batches) = \<lceil>real (length items) / real_of_int n\<rceil>"
proof -
  define m where "m = nat n"
  have m: "0 < m" "n = int m"
    using assms by (simp_all add: m_def)
  have run: "batch_loop op count items n 0 ([], [], c, s) =
      Some (fst (promise_all_map op items s), chunks m items,
            fold count (fst (promise_all_map op items s)) c, snd (promise_all_map op items s))"
    unfolding m_def by (rule batch_loop_from_start [OF assms])
  have full: "\<forall>b \<in> set (butlast (chunks m items)). int (length b) = n"
    using chunks_butlast_full [OF m(1)] m(2) by auto
  have sizes: "\<forall>b \<in> set (chunks m items). 0 < length b \<and> int (length b) \<le> n"
    using chunks_sizes [OF m(1)] m(2) by auto
  have "\<lceil>real (length items) / real m\<rceil> = int (length (chunks m items))"
    by (simp only: ceiling_div [OF m(1)] length_chunks [OF m(1)])
  then have count: "int (length (chunks m items)) = \<lceil>real (length items) / real_of_int n\<rceil>"
    by (simp add: m(2))
  show ?thesis
    using run concat_chunks [OF m(1), of items] full sizes count by blast
qed

text \<open>
  Witness (scenario A of the specification): five URLs, three at a time, make the two
  batches of three and two.
\<close>

theorem batches_partition_worklist_witness:
  "(0::int) < concurrentDownloads cfg
   \<and> (\<exists>results c' s'.
         batch_loop (\<lambda>url. downloadFile env_ok cfg url 1) count_download (downloadUrls cfg)
           (concurrentDownloads cfg) 0 ([], [], new_counters, start)
         = Some (results,
                 [[''http://h/1'', ''http://h/2'', ''http://h/bad''], [''http://h/4'', ''http://h/5'']],
                 c', s'))"
proof -
  have pos: "(0::int) < concurrentDownloads cfg"
    by (simp add: cfg_def)
  obtain results batches c' s' where
    run: "batch_loop (\<lambda>url. downloadFile env_ok cfg url 1) count_download (downloadUrls cfg)
           (concurrentDownloads cfg) 0 ([], [], new_counters, start) = Some (results, batches, c', s')"
    and cover: "concat batches = downloadUrls cfg"
    and full: "\<forall>b \<in> set (butlast batches). int (length b) = concurrentDownloads cfg"
    and len: "int (length batches) = \<lceil>real (length (downloadUrls cfg)) / real_of_int (concurrentDownloads cfg)\<rceil>"
    using batches_partition_worklist [OF pos, of "\<lambda>url. downloadFile env_ok cfg url 1"
        count_download "downloadUrls cfg" new_counters start]
    by blast
  have "\<lceil>real (length (downloadUrls cfg)) / real_of_int (concurrentDownloads cfg)\<rceil> = 2"
    by (simp add: cfg_def ceiling_eq_iff)
  with len have "length batches = 2" by simp
  then obtain b1 b2 where bs: "batches = [b1, b2]"
    by (metis (no_types, opaque_lifting) length_0_conv length_Suc_conv numeral_2_eq_2)
  from full bs have l1: "length b1 = 3"
    by (simp add: cfg_def)
  from cover bs have "b1 @ b2 = downloadUrls cfg" by simp
  then have "b1 = take 3 (downloadUrls cfg)" "b2 = drop 3 (downloadUrls cfg)"
    using l1 by (metis append_eq_conv_conj)+
  then have "batches =
      [[''http://h/1'', ''http://h/2'', ''http://h/bad''], [''http://h/4'', ''http://h/5'']]"
    using bs by (simp add: cfg_def)
  with run pos show ?thesis by blast
qed

section \<open>What downloadAll and extractAll return\<close>

lemma downloadAll_run:
  assumes "0 < concurrentDownloads this"
    and "ensureDownloadDirectory env this st = (Inr u, st1)"
  shows "downloadAll env this c st =
     Some (Inr (fst (promise_all_map (\<lambda>url. downloadFile env this url 1) (downloadUrls this) st1)),
           fold count_download
             (fst (promise_all_map (\<lambda>url. downloadFile env this url 1) (downloadUrls this) st1)) c,
           download_summary this
             (fold count_download
                (fst (promise_all_map (\<lambda>url. downloadFile env this url 1) (downloadUrls this) st1)) c)
             (fst (promise_all_map (\<lambda>url. downloadFile env this url 1) (downloadUrls this) st1))
             (snd (promise_all_map (\<lambda>url. downloadFile env this url 1) (downloadUrls this) st1)))"
  unfolding downloadAll_def assms(2)
  by (simp add: batch_loop_from_start [OF assms(1)])

lemma extractAll_run:
  assumes "0 < concurrentExtractions this"
    and "io (EnsureDir (destinationDirectory this)) (fs_ensureDir env (destinationDirectory this)) st
           = (Inr u, st1)"
    and "findArchiveFiles env this st1 = (Inr archiveFiles, st2)"
    and "archiveFiles \<noteq> []"
  shows "extractAll env this c st =
     Some (Inr (fst (promise_all_map (extract_archive env this) archiveFiles st2)),
           fold count_extraction (fst (promise_all_map (extract_archive env this) archiveFiles st2)) c,
           extract_summary archiveFiles
             (fold count_extraction (fst (promise_all_map (extract_archive env this) archiveFiles st2)) c)
             (fst (promise_all_map (extract_archive env this) archiveFiles st2))
             (snd (promise_all_map (extract_archive env this) archiveFiles st2)))"
  unfolding extractAll_def assms(2)
  using assms(4) by (simp add: assms(3) batch_loop_from_start [OF assms(1)])

lemma extractAll_nothing:
  assumes "io (EnsureDir (destinationDirectory this)) (fs_ensureDir env (destinationDirectory this)) st
           = (Inr u, st1)"
    and "findArchiveFiles env this st1 = (Inr [], st2)"
  shows "extractAll env this c st = Some (Inr [], c, st2)"
  unfolding extractAll_def assms(1) by (simp add: assms(2))

section \<open>C1: one outcome per item, at the item's position\<close>



section \<open>C6: the arithmetic of the summary\<close>

lemma fold_count_download:
  "completed (fold count_download rs c) = completed c + int (length (filter success rs))
   \<and> failed (fold count_download rs c) = failed c + int (length (filter (\<lambda>r. \<not> success r) rs))"
  by (induction rs arbitrary: c) (simp_all add: count_download_def)

lemma fold_count_extraction:
  "extractedFiles (fold count_extraction rs c) = extractedFiles c + int (length (filter extracted rs))
   \<and> failedExtractions (fold count_extraction rs c)
       = failedExtractions c + int (length (filter (\<lambda>r. \<not> extracted r) rs))"
  by (induction rs arbitrary: c) (simp_all add: count_extraction_def)

lemma length_filter_both:
  "int (length (filter P xs)) + int (length (filter (\<lambda>x. \<not> P x) xs)) = int (length xs)"
  using sum_length_filter_compl [of P xs] by linarith

lemma foldl_plus:
  fixes f :: "'a \<Rightarrow> int"
  shows "foldl (\<lambda>sum r. sum + f r) a xs = a + sum_list (map f xs)"
  by (induction xs arbitrary: a) simp_all

lemma sum_list_truthy:
  fixes f :: "'a \<Rightarrow> int"
  shows "sum_list (map f (filter (\<lambda>r. P r \<and> f r \<noteq> 0) xs)) = sum_list (map f (filter P xs))"
  by (induction xs) simp_all

lemma totalBytes_sum: "totalBytes results = sum_list (map bytes (filter success results))"
  by (simp add: totalBytes_def foldl_plus sum_list_truthy)

lemma totalExtractedSize_sum:
  "totalExtractedSize results = sum_list (map extractedSize_of (filter extracted results))"
  by (simp add: totalExtractedSize_def foldl_plus sum_list_truthy)

lemma totalExtractedFiles_sum:
  "totalExtractedFiles results = sum_list (map extractedFiles_of (filter extracted results))"
  by (simp add: totalExtractedFiles_def foldl_plus sum_list_truthy)

lemma filter_by_index:
  "filter P xs = map ((!) xs) (filter (\<lambda>i. P (xs ! i)) [0..<length xs])"
proof -
  have "filter P (map ((!) xs) [0..<length xs]) =
        map ((!) xs) (filter (P \<circ> (!) xs) [0..<length xs])"
    by (rule filter_map)
  then show ?thesis
    by (simp add: map_nth comp_def)
qed

text \<open>
  C6. After \<^verbatim>\<open>downloadAll\<close>, started with the counters at zero, \<^verbatim>\<open>completed + failed\<close> is the
  number of URLs (\<^verbatim>\<open>total\<close>), \<^verbatim>\<open>completed\<close> counts the successful results, \<^verbatim>\<open>totalBytes\<close> is the
  sum of \<^verbatim>\<open>bytes\<close> over the successful results only, and the failed results that are logged
  are the failed results in their original order; these are the values the summary logs.
  After \<^verbatim>\<open>extractAll\<close>, \<^verbatim>\<open>extractedFiles + failedExtractions\<close> is the number of archives, and
  the totals of files and bytes are the sums over the successful results only.
\<close>

theorem summary_arithmetic:
  "(0 < concurrentDownloads this \<and> ensureDownloadDirectory env this st = (Inr u, st1) \<longrightarrow>
      (\<exists>results c' st' evs.
          downloadAll env this new_counters st = Some (Inr results, c', st')
        \<and> completed c' + failed c' = total this
        \<and> completed c' = int (length (filter success results))
        \<and> totalBytes results = sum_list (map bytes (filter success results))
        \<and> failedResults results =
            map ((!) results) (filter (\<lambda>i. \<not> success (results ! i)) [0..<length results])
        \<and> trace st' = evs
            @ [Log (SummaryCounts (total this) (completed c') (failed c'))]
            @ map (\<lambda>r. Log (failed_item r)) (failedResults results)
            @ (if totalBytes results > 0 then [Log (TotalDownloaded (totalBytes results))] else [])))
   \<and> (0 < concurrentExtractions this
       \<and> io (EnsureDir (destinationDirectory this)) (fs_ensureDir env (destinationDirectory this)) st
             = (Inr u, st1)
       \<and> findArchiveFiles env this st1 = (Inr archiveFiles, st2) \<longrightarrow>
      (\<exists>results c' st'.
          extractAll env this new_counters st = Some (Inr results, c', st')
        \<and> extractedFiles c' + failedExtractions c' = int (length archiveFiles)
        \<and> extractedFiles c' = int (length (filter extracted results))
        \<and> totalExtractedSize results = sum_list (map extractedSize_of (filter extracted results))
        \<and> totalExtractedFiles results = sum_list (map extractedFiles_of (filter extracted results))
        \<and> failedExtractionResults results =
            map ((!) results) (filter (\<lambda>i. \<not> extracted (results ! i)) [0..<length results])))"
proof (intro conjI impI)
  assume a: "0 < concurrentDownloads this \<and> ensureDownloadDirectory env this st = (Inr u, st1)"
  let ?R = "fst (promise_all_map (\<lambda>url. downloadFile env this url 1) (downloadUrls this) st1)"
  let ?S = "snd (promise_all_map (\<lambda>url. downloadFile env this url 1) (downloadUrls this) st1)"
  let ?c = "fold count_download ?R new_counters"
  have run: "downloadAll env this new_counters st = Some (Inr ?R, ?c, download_summary this ?c ?R ?S)"
    using downloadAll_run [of this env st u st1 new_counters] a by simp
  have succ: "completed ?c = int (length (filter success ?R))"
    and lost: "failed ?c = int (length (filter (\<lambda>r. \<not> success r) ?R))"
    using fold_count_download [of ?R new_counters] by (simp_all add: new_counters_def)
  have all: "completed ?c + failed ?c = total this"
    unfolding succ lost total_def
    by (simp only: length_filter_both length_promise_all_map)
  have order: "failedResults ?R = map ((!) ?R) (filter (\<lambda>i. \<not> success (?R ! i)) [0..<length ?R])"
    unfolding failedResults_def by (rule filter_by_index)
  have logged: "trace (download_summary this ?c ?R ?S) = trace ?S
            @ [Log (SummaryCounts (total this) (completed ?c) (failed ?c))]
            @ map (\<lambda>r. Log (failed_item r)) (failedResults ?R)
            @ (if totalBytes ?R > 0 then [Log (TotalDownloaded (totalBytes ?R))] else [])"
    by (simp add: download_summary_def)
  show "\<exists>results c' st' evs.
          downloadAll env this new_counters st = Some (Inr results, c', st')
        \<and> completed c' + failed c' = total this
        \<and> completed c' = int (length (filter success results))
        \<and> totalBytes results = sum_list (map bytes (filter success results))
        \<and> failedResults results =
            map ((!) results) (filter (\<lambda>i. \<not> success (results ! i)) [0..<length results])
        \<and> trace st' = evs
            @ [Log (SummaryCounts (total this) (completed c') (failed c'))]
            @ map (\<lambda>r. Log (failed_item r)) (failedResults results)
            @ (if totalBytes results > 0 then [Log (TotalDownloaded (totalBytes results))] else [])"
    using run all succ totalBytes_sum [of ?R] order logged by blast
next
  assume a: "0 < concurrentExtractions this
       \<and> io (EnsureDir (destinationDirectory this)) (fs_ensureDir env (destinationDirectory this)) st
             = (Inr u, st1)
       \<and> findArchiveFiles env this st1 = (Inr archiveFiles, st2)"
  let ?R = "fst (promise_all_map (extract_archive env this) archiveFiles st2)"
  let ?c = "fold count_extraction ?R new_counters"
  have succ: "extractedFiles ?c = int (length (filter extracted ?R))"
    and lost: "failedExtractions ?c = int (length (filter (\<lambda>r. \<not> extracted r) ?R))"
    using fold_count_extraction [of ?R new_counters] by (simp_all add: new_counters_def)
  have all: "extractedFiles ?c + failedExtractions ?c = int (length archiveFiles)"
    unfolding succ lost
    by (simp only: length_filter_both length_promise_all_map)
  have order: "failedExtractionResults ?R
      = map ((!) ?R) (filter (\<lambda>i. \<not> extracted (?R ! i)) [0..<length ?R])"
    unfolding failedExtractionResults_def by (rule filter_by_index)
  have "\<exists>st'. extractAll env this new_counters st = Some (Inr ?R, ?c, st')"
  proof (cases "archiveFiles = []")
    case True
    with a extractAll_nothing [of this env st u st1 st2 new_counters] show ?thesis
      by simp
  next
    case False
    with a extractAll_run [of this env st u st1 archiveFiles st2 new_counters] show ?thesis
      by simp
  qed
  then show "\<exists>results c' st'.
          extractAll env this new_counters st = Some (Inr results, c', st')
        \<and> extractedFiles c' + failedExtractions c' = int (length archiveFiles)
        \<and> extractedFiles c' = int (length (filter extracted results))
        \<and> totalExtractedSize results = sum_list (map extractedSize_of (filter extracted results))
        \<and> totalExtractedFiles results = sum_list (map extractedFiles_of (filter extracted results))
        \<and> failedExtractionResults results =
            map ((!) results) (filter (\<lambda>i. \<not> extracted (results ! i)) [0..<length results])"
    using all succ totalExtractedSize_sum [of ?R] totalExtractedFiles_sum [of ?R] order by blast
qed

text \<open>
  Witness: of the five URLs one is refused, so four results succeed with 5 bytes each; both
  archives unpack into a directory that then holds one file of 7 bytes.
\<close>

theorem summary_arithmetic_witness:
  "0 < concurrentDownloads cfg
   \<and> ensureDownloadDirectory env_one_bad cfg start
       = (Inr (), \<lparr>world = 0, trace = [IO (EnsureDir ''/dl'') True]\<rparr>)
   \<and> (\<exists>results c' st'.
         downloadAll env_one_bad cfg new_counters start = Some (Inr results, c', st')
       \<and> completed c' + failed c' = 5
       \<and> completed c' = 4
       \<and> totalBytes results = 20
       \<and> failedResults results = [DownloadFailed ''ECONNREFUSED'' ''http://h/bad''])
   \<and> 0 < concurrentExtractions cfg
   \<and> (\<exists>st2. findArchiveFiles env_present cfg \<lparr>world = 0, trace = [IO (EnsureDir ''/dst'') True]\<rparr>
         = (Inr [\<lparr>a_path = ''/src/a.tgz'', a_name = ''a.tgz'', a_size = 5\<rparr>,
                 \<lparr>a_path = ''/src/a.tar'', a_name = ''a.tar'', a_size = 5\<rparr>], st2))
   \<and> (\<exists>results c' st'.
         extractAll env_present cfg new_counters start = Some (Inr results, c', st')
       \<and> extractedFiles c' + failedExtractions c' = 2
       \<and> extractedFiles c' = 2
       \<and> totalExtractedSize results = 14
       \<and> totalExtractedFiles results = 2)"
proof -
  let ?st1 = "\<lparr>world = 0::nat, trace = [IO (EnsureDir ''/dl'') True]\<rparr>"
  let ?sx1 = "\<lparr>world = 0::nat, trace = [IO (EnsureDir ''/dst'') True]\<rparr>"
  let ?archives = "[\<lparr>a_path = ''/src/a.tgz'', a_name = ''a.tgz'', a_size = 5\<rparr>,
                    \<lparr>a_path = ''/src/a.tar'', a_name = ''a.tar'', a_size = 5\<rparr>]"
  let ?sx2 = "\<lparr>world = 0::nat, trace = [IO (EnsureDir ''/dst'') True, IO (PathExists ''/src'') True,
          IO (Readdir ''/src'') True, IO (Stat ''/src/a.tgz'') True, IO (Stat ''/src/a.tar'') True,
          IO (Stat ''/src/notes.txt'') True]\<rparr>"
  let ?D = "[Downloaded ''1'' ''/dl/1'' 5, Downloaded ''2'' ''/dl/2'' 5,
             DownloadFailed ''ECONNREFUSED'' ''http://h/bad'',
             Downloaded ''4'' ''/dl/4'' 5, Downloaded ''5'' ''/dl/5'' 5]"
  let ?X = "[Extracted ''a.tgz'' ''/src/a.tgz'' ''/dst/a'' 1 7,
             Extracted ''a.tar'' ''/src/a.tar'' ''/dst/a'' 1 7]"
  have d1: "0 < concurrentDownloads cfg" and x1: "0 < concurrentExtractions cfg"
    by (simp_all add: cfg_def)
  have d2: "ensureDownloadDirectory env_one_bad cfg start = (Inr (), ?st1)"
    by code_simp
  have x2: "io (EnsureDir (destinationDirectory cfg)) (fs_ensureDir env_present (destinationDirectory cfg))
              start = (Inr (), ?sx1)"
    by code_simp
  have x3: "findArchiveFiles env_present cfg ?sx1 = (Inr ?archives, ?sx2)"
    by code_simp
  have dres: "map_option fst (downloadAll env_one_bad cfg new_counters start) = Some (Inr ?D)"
    by code_simp
  have xres: "map_option fst (extractAll env_present cfg new_counters start) = Some (Inr ?X)"
    by code_simp
  have tot: "total cfg = 5"
    by (simp add: total_def cfg_def)
  note dl = summary_arithmetic [where this = cfg and env = env_one_bad and st = start
      and u = "()" and ?st1.0 = ?st1]
  note ex = summary_arithmetic [where this = cfg and env = env_present and st = start
      and u = "()" and ?st1.0 = ?sx1 and archiveFiles = ?archives and ?st2.0 = ?sx2]
  from dl d1 d2 obtain results c' st' where
    run: "downloadAll env_one_bad cfg new_counters start = Some (Inr results, c', st')"
    and sum: "completed c' + failed c' = total cfg"
    and ok: "completed c' = int (length (filter success results))"
    and tb: "totalBytes results = sum_list (map bytes (filter success results))"
    and fr: "failedResults results =
            map ((!) results) (filter (\<lambda>i. \<not> success (results ! i)) [0..<length results])"
    by blast
  from run dres have res: "results = ?D"
    by simp
  have "map ((!) ?D) (filter (\<lambda>i. \<not> success (?D ! i)) [0..<length ?D])
       = [DownloadFailed ''ECONNREFUSED'' ''http://h/bad'']"
    by code_simp
  with fr res have fr': "failedResults results = [DownloadFailed ''ECONNREFUSED'' ''http://h/bad'']"
    by simp
  from ok tb res have "completed c' = 4" "totalBytes results = 20"
    by simp_all
  with run sum tot fr' have downloads: "\<exists>results c' st'.
         downloadAll env_one_bad cfg new_counters start = Some (Inr results, c', st')
       \<and> completed c' + failed c' = 5
       \<and> completed c' = 4
       \<and> totalBytes results = 20
       \<and> failedResults results = [DownloadFailed ''ECONNREFUSED'' ''http://h/bad'']"
    by auto
  from ex x1 x2 x3 obtain xresults xc' xst' where
    xrun: "extractAll env_present cfg new_counters start = Some (Inr xresults, xc', xst')"
    and xsum: "extractedFiles xc' + failedExtractions xc' = int (length ?archives)"
    and xok: "extractedFiles xc' = int (length (filter extracted xresults))"
    and xsz: "totalExtractedSize xresults = sum_list (map extractedSize_of (filter extracted xresults))"
    and xfl: "totalExtractedFiles xresults = sum_list (map extractedFiles_of (filter extracted xresults))"
    by blast
  from xrun xres have "xresults = ?X"
    by simp
  with xsum xok xsz xfl have
    "extractedFiles xc' + failedExtractions xc' = 2" "extractedFiles xc' = 2"
    "totalExtractedSize xresults = 14" "totalExtractedFiles xresults = 2"
    by simp_all
  with xrun have extractions: "\<exists>results c' st'.
         extractAll env_present cfg new_counters start = Some (Inr results, c', st')
       \<and> extractedFiles c' + failedExtractions c' = 2
       \<and> extractedFiles c' = 2
       \<and> totalExtractedSize results = 14
       \<and> totalExtractedFiles results = 2"
    by blast
  from d1 d2 downloads x1 x3 extractions show ?thesis
    by blast
qed

section \<open>C2: the retry bound\<close>


lemma retry_events_io:
  assumes "\<And>ok. \<not> retry_event (IO c ok)"
  shows "filter retry_event (trace (snd (io c prim st))) = filter retry_event (trace st)"
  using assms by (simp add: io_def split_beta)

lemma retry_events_pathExists:
  "filter retry_event (trace (snd (pathExists env p st))) = filter retry_event (trace st)"
  by (simp add: pathExists_def split_beta)



lemma io_trace:
  "io c prim st = (r, st') \<Longrightarrow> trace st' = trace st @ [IO c (\<not> isl r)]"
  by (auto simp: io_def split: prod.splits)




lemma trace_emit: "trace (emit m st) = trace st @ [Log m]"
  by (simp add: emit_def)










text \<open>The ways through the \<^verbatim>\<open>try\<close> of \<^verbatim>\<open>extractTgzFile\<close>.\<close>

lemma extract_try_cases:
  obtains
    (EnsureFailed) e st1 where
      "io (EnsureDir dst) (fs_ensureDir env dst) (emit (StartingExtraction (basename src) dst attempt) st)
         = (Inl e, st1)"
      "extract_try env this src dst attempt st = (Inl e, st1)"
  | (TarFailed) u st1 e st2 where
      "io (EnsureDir dst) (fs_ensureDir env dst) (emit (StartingExtraction (basename src) dst attempt) st)
         = (Inr u, st1)"
      "io (TarExtract src dst) (tar_extract env src dst) st1 = (Inl e, st2)"
      "extract_try env this src dst attempt st = (Inl e, st2)"
  | (RemoveFailed) u st1 v st2 answers w e st4 where
      "io (EnsureDir dst) (fs_ensureDir env dst) (emit (StartingExtraction (basename src) dst attempt) st)
         = (Inr u, st1)"
      "io (TarExtract src dst) (tar_extract env src dst) st1 = (Inr v, st2)"
      "fs_walk env dst (world st2) = (answers, w)"
      "deleteAfterUnzip this"
      "io (Remove src) (fs_remove env src)
          (emit (SuccessfullyExtracted (basename src) (snd (getDirectoryStats answers))
                   (fst (getDirectoryStats answers)))
             \<lparr>world = w, trace = trace st2 @ [IO (Walk dst) True]\<rparr>) = (Inl e, st4)"
      "extract_try env this src dst attempt st = (Inl e, st4)"
  | (Removed) u st1 v st2 answers w x st4 where
      "io (EnsureDir dst) (fs_ensureDir env dst) (emit (StartingExtraction (basename src) dst attempt) st)
         = (Inr u, st1)"
      "io (TarExtract src dst) (tar_extract env src dst) st1 = (Inr v, st2)"
      "fs_walk env dst (world st2) = (answers, w)"
      "deleteAfterUnzip this"
      "io (Remove src) (fs_remove env src)
          (emit (SuccessfullyExtracted (basename src) (snd (getDirectoryStats answers))
                   (fst (getDirectoryStats answers)))
             \<lparr>world = w, trace = trace st2 @ [IO (Walk dst) True]\<rparr>) = (Inr x, st4)"
      "extract_try env this src dst attempt st =
         (Inr (Extracted (basename src) src dst (snd (getDirectoryStats answers))
                 (fst (getDirectoryStats answers))),
          emit (DeletedSourceFile (basename src)) st4)"
  | (Kept) u st1 v st2 answers w where
      "io (EnsureDir dst) (fs_ensureDir env dst) (emit (StartingExtraction (basename src) dst attempt) st)
         = (Inr u, st1)"
      "io (TarExtract src dst) (tar_extract env src dst) st1 = (Inr v, st2)"
      "fs_walk env dst (world st2) = (answers, w)"
      "\<not> deleteAfterUnzip this"
      "extract_try env this src dst attempt st =
         (Inr (Extracted (basename src) src dst (snd (getDirectoryStats answers))
                 (fst (getDirectoryStats answers))),
          emit (SuccessfullyExtracted (basename src) (snd (getDirectoryStats answers))
                  (fst (getDirectoryStats answers)))
            \<lparr>world = w, trace = trace st2 @ [IO (Walk dst) True]\<rparr>)"
proof -
  obtain r1 st1 where e: "io (EnsureDir dst) (fs_ensureDir env dst)
      (emit (StartingExtraction (basename src) dst attempt) st) = (r1, st1)"
    by (cases "io (EnsureDir dst) (fs_ensureDir env dst)
      (emit (StartingExtraction (basename src) dst attempt) st)")
  show thesis
  proof (cases r1)
    case (Inl err)
    with e have "extract_try env this src dst attempt st = (Inl err, st1)"
      by (simp add: extract_try_def Let_def)
    with e Inl show thesis by (auto intro: EnsureFailed)
  next
    case (Inr u)
    note ensure = e [unfolded Inr]
    obtain r2 st2 where t: "io (TarExtract src dst) (tar_extract env src dst) st1 = (r2, st2)"
      by (cases "io (TarExtract src dst) (tar_extract env src dst) st1")
    show thesis
    proof (cases r2)
      case (Inl err)
      with ensure t have "extract_try env this src dst attempt st = (Inl err, st2)"
        by (simp add: extract_try_def Let_def)
      with ensure t Inl show thesis by (auto intro: TarFailed)
    next
      case tar: (Inr v)
      obtain answers w where walk: "fs_walk env dst (world st2) = (answers, w)"
        by (cases "fs_walk env dst (world st2)")
      let ?st3 = "emit (SuccessfullyExtracted (basename src) (snd (getDirectoryStats answers))
                   (fst (getDirectoryStats answers)))
             \<lparr>world = w, trace = trace st2 @ [IO (Walk dst) True]\<rparr>"
      show thesis
      proof (cases "deleteAfterUnzip this")
        case False
        with ensure t tar walk have "extract_try env this src dst attempt st =
            (Inr (Extracted (basename src) src dst (snd (getDirectoryStats answers))
                 (fst (getDirectoryStats answers))), ?st3)"
          by (simp add: extract_try_def Let_def)
        with ensure t tar walk False show thesis by (auto intro: Kept)
      next
        case True
        obtain r4 st4 where rm: "io (Remove src) (fs_remove env src) ?st3 = (r4, st4)"
          by (cases "io (Remove src) (fs_remove env src) ?st3")
        show thesis
        proof (cases r4)
          case (Inl err)
          with ensure t tar walk True rm have "extract_try env this src dst attempt st = (Inl err, st4)"
            by (simp add: extract_try_def Let_def)
          with ensure t tar walk True rm Inl show thesis by (auto intro: RemoveFailed)
        next
          case (Inr x)
          with ensure t tar walk True rm have "extract_try env this src dst attempt st =
            (Inr (Extracted (basename src) src dst (snd (getDirectoryStats answers))
                 (fst (getDirectoryStats answers))), emit (DeletedSourceFile (basename src)) st4)"
            by (simp add: extract_try_def Let_def)
          with ensure t tar walk True rm Inr show thesis by (auto intro: Removed)
        qed
      qed
    qed
  qed
qed

lemma retry_events_extract_try:
  assumes "extract_try env this src dst attempt st = (r, st')"
  shows "filter retry_event (trace st') =
         filter retry_event (trace st) @ [Log (StartingExtraction (basename src) dst attempt)]"
proof (cases rule: extract_try_cases [of dst env src attempt st this])
  case (EnsureFailed e st1)
  with assms io_trace [OF EnsureFailed(1)] show ?thesis
    by (auto simp add: trace_emit)
next
  case (TarFailed u st1 e st2)
  with assms io_trace [OF TarFailed(1)] io_trace [OF TarFailed(2)] show ?thesis
    by (auto simp add: trace_emit)
next
  case (RemoveFailed u st1 v st2 answers w e st4)
  with assms io_trace [OF RemoveFailed(1)] io_trace [OF RemoveFailed(2)]
    io_trace [OF RemoveFailed(5)] show ?thesis
    by (auto simp add: trace_emit)
next
  case (Removed u st1 v st2 answers w x st4)
  with assms io_trace [OF Removed(1)] io_trace [OF Removed(2)]
    io_trace [OF Removed(5)] show ?thesis
    by (auto simp add: trace_emit)
next
  case (Kept u st1 v st2 answers w)
  with assms io_trace [OF Kept(1)] io_trace [OF Kept(2)] show ?thesis
    by (auto simp add: trace_emit)
qed

lemma extract_try_success:
  assumes "extract_try env this src dst attempt st = (Inr r, st')"
  shows "extracted r"
  by (cases rule: extract_try_cases [of dst env src attempt st this]) (use assms in auto)

lemma extractTgzFile_returns:
  "extract_try env this src dst attempt st = (Inr r, st') \<Longrightarrow>
   extractTgzFile env this src dst attempt st = (r, st')"
  by (subst extractTgzFile.simps) simp


lemma extractTgzFile_gives_up:
  assumes "extract_try env this src dst attempt st = (Inl e, st1)"
    and "\<not> attempt < retryAttempts this"
  shows "extractTgzFile env this src dst attempt st =
         (ExtractFailed (message e) src, emit (FailedToExtract src attempt (message e)) st1)"
  using assms by (subst extractTgzFile.simps) simp











section \<open>C4: a failed item does not stop the run\<close>





section \<open>C3: when a download is skipped\<close>







section \<open>C7: the source directory that does not exist\<close>

text \<open>
  C7. If, when \<^verbatim>\<open>findArchiveFiles\<close> looks, the source directory does not exist, \<^verbatim>\<open>extractAll\<close>
  throws: it returns no result list, leaves the counters as they were, and has started no
  extraction (no attempt is logged and \<^verbatim>\<open>tar.extract\<close> is not called). When the destination
  directory could be ensured, the error thrown is \<^verbatim>\<open>Source directory does not exist: ...\<close> and
  the run did nothing but ensure the destination, look for the source and log the error.
\<close>

theorem missing_source_directory:
  assumes "io (EnsureDir (destinationDirectory this)) (fs_ensureDir env (destinationDirectory this)) st
             = (r0, st1)"
    and "fst (fs_pathExists env (sourceDirectory this) (world st1)) = False"
  shows "\<exists>e st'.
           extractAll env this c st = Some (Inl e, c, st')
         \<and> (\<forall>fileName dir attempt. Log (StartingExtraction fileName dir attempt) \<notin> set (new_events st st'))
         \<and> (\<forall>src dir ok. IO (TarExtract src dir) ok \<notin> set (new_events st st'))
         \<and> (\<not> isl r0 \<longrightarrow>
               e = Error (''Source directory does not exist: '' @ sourceDirectory this)
             \<and> new_events st st' =
                 [IO (EnsureDir (destinationDirectory this)) True,
                  IO (PathExists (sourceDirectory this)) True,
                  Log (FailedToScan (''Source directory does not exist: '' @ sourceDirectory this)),
                  Log (FatalError (''Source directory does not exist: '' @ sourceDirectory this))])"
proof (cases r0)
  case (Inl e)
  with assms(1) have "extractAll env this c st = Some (Inl e, c, emit (FatalError (message e)) st1)"
    by (simp add: extractAll_def)
  moreover from io_trace [OF assms(1)] Inl
  have "new_events st (emit (FatalError (message e)) st1)
      = [IO (EnsureDir (destinationDirectory this)) False, Log (FatalError (message e))]"
    by (simp add: new_events_def trace_emit)
  ultimately show ?thesis
    using Inl by simp
next
  case (Inr u)
  let ?msg = "''Source directory does not exist: '' @ sourceDirectory this"
  obtain w where "fs_pathExists env (sourceDirectory this) (world st1) = (False, w)"
    using assms(2) by (cases "fs_pathExists env (sourceDirectory this) (world st1)") simp
  then have look: "pathExists env (sourceDirectory this) st1 =
      (False, \<lparr>world = w, trace = trace st1 @ [IO (PathExists (sourceDirectory this)) True]\<rparr>)"
    by (simp add: pathExists_def)
  let ?st2 = "emit (FailedToScan ?msg)
      \<lparr>world = w, trace = trace st1 @ [IO (PathExists (sourceDirectory this)) True]\<rparr>"
  from look have scan: "findArchiveFiles env this st1 = (Inl (Error ?msg), ?st2)"
    by (simp add: findArchiveFiles_def)
  with assms(1) Inr have run: "extractAll env this c st =
      Some (Inl (Error ?msg), c, emit (FatalError ?msg) ?st2)"
    by (simp add: extractAll_def)
  from io_trace [OF assms(1)] Inr
  have "new_events st (emit (FatalError ?msg) ?st2) =
                 [IO (EnsureDir (destinationDirectory this)) True,
                  IO (PathExists (sourceDirectory this)) True,
                  Log (FailedToScan ?msg), Log (FatalError ?msg)]"
    by (simp add: new_events_def trace_emit)
  with run show ?thesis
    by simp
qed

text \<open>Witness (scenario E of the specification): \<^verbatim>\<open>/src\<close> does not exist.\<close>

theorem missing_source_directory_witness:
  "(\<exists>st'. extractAll env_ok cfg new_counters start
            = Some (Inl (Error ''Source directory does not exist: /src''), new_counters, st')
         \<and> new_events start st' =
                 [IO (EnsureDir ''/dst'') True, IO (PathExists ''/src'') True,
                  Log (FailedToScan ''Source directory does not exist: /src''),
                  Log (FatalError ''Source directory does not exist: /src'')])"
proof -
  have a: "io (EnsureDir (destinationDirectory cfg)) (fs_ensureDir env_ok (destinationDirectory cfg)) start
      = (Inr (), \<lparr>world = 0, trace = [IO (EnsureDir ''/dst'') True]\<rparr>)"
    by code_simp
  have b: "fst (fs_pathExists env_ok (sourceDirectory cfg)
                  (world \<lparr>world = 0::nat, trace = [IO (EnsureDir ''/dst'') True]\<rparr>)) = False"
    by (simp add: env_ok_def)
  have names: "sourceDirectory cfg = ''/src''" "destinationDirectory cfg = ''/dst''"
    by (simp_all add: cfg_def)
  from missing_source_directory [OF a b, of new_counters] show ?thesis
    by (auto simp add: names)
qed

section \<open>C10: read errors during the walk\<close>

lemma walk_items_append:
  assumes "\<forall>entry \<in> set before. \<forall>e. snd entry \<noteq> RegularFile (Inl e)"
  shows "walk_items (before @ rest) acc = walk_items rest (walk_items before acc)"
  using assms
proof (induction before arbitrary: acc)
  case Nil
  show ?case by simp
next
  case (Cons entry before)
  obtain name d where entry: "entry = (name, d)"
    by (cases entry)
  obtain totalSize fileCount where acc: "acc = (totalSize, fileCount)"
    by (cases acc)
  from Cons.prems have rest_ok: "\<forall>entry \<in> set before. \<forall>e. snd entry \<noteq> RegularFile (Inl e)"
    by simp
  show ?case
  proof (cases d)
    case (Directory sub)
    with entry acc Cons.IH [OF rest_ok] show ?thesis by simp
  next
    case OtherEntry
    with entry acc Cons.IH [OF rest_ok] show ?thesis by simp
  next
    case (RegularFile s)
    with Cons.prems entry obtain sz where "s = Inr sz"
      by (cases s) auto
    with RegularFile entry acc Cons.IH [OF rest_ok] show ?thesis by simp
  qed
qed

lemma extract_try_after_walk:
  assumes "io (EnsureDir dst) (fs_ensureDir env dst) (emit (StartingExtraction (basename src) dst attempt) st)
             = (Inr u, st1)"
    and "io (TarExtract src dst) (tar_extract env src dst) st1 = (Inr v, st2)"
    and "fs_walk env dst (world st2) = (answers, w)"
    and "deleteAfterUnzip this \<longrightarrow>
           \<not> isl (fst (io (Remove src) (fs_remove env src)
                         (emit (SuccessfullyExtracted (basename src) (snd (getDirectoryStats answers))
                                  (fst (getDirectoryStats answers)))
                            \<lparr>world = w, trace = trace st2 @ [IO (Walk dst) True]\<rparr>)))"
  shows "\<exists>st'. extract_try env this src dst attempt st =
           (Inr (Extracted (basename src) src dst (snd (getDirectoryStats answers))
                   (fst (getDirectoryStats answers))), st')"
proof (cases "deleteAfterUnzip this")
  case False
  with assms(1-3) show ?thesis
    by (simp add: extract_try_def Let_def)
next
  case True
  let ?st3 = "emit (SuccessfullyExtracted (basename src) (snd (getDirectoryStats answers))
                                  (fst (getDirectoryStats answers)))
                            \<lparr>world = w, trace = trace st2 @ [IO (Walk dst) True]\<rparr>"
  obtain r4 st4 where rm: "io (Remove src) (fs_remove env src) ?st3 = (r4, st4)"
    by (cases "io (Remove src) (fs_remove env src) ?st3")
  with True assms(4) obtain x where "r4 = Inr x"
    by (cases r4) auto
  with rm True assms(1-3) show ?thesis
    by (simp add: extract_try_def Let_def)
qed

text \<open>
  C10. A read error during the walk after the unpacking stays inside \<^verbatim>\<open>getDirectoryStats\<close>: a
  directory that cannot be read counts as empty (for a subdirectory the walk of the parent
  goes on), and a \<^verbatim>\<open>stat\<close> that fails ends the loop of its directory with the counts reached
  so far. Whatever the walk meets, once the destination is ensured and the archive unpacked
  (and the source archive removed without error, when the flag asks for it) the attempt
  returns the success object with the counts of the walk, and \<^verbatim>\<open>extractTgzFile\<close> returns it: no
  failure object, no wait, no further attempt.
\<close>

theorem walk_errors_are_caught:
  assumes "io (EnsureDir dst) (fs_ensureDir env dst) (emit (StartingExtraction (basename src) dst attempt) st)
             = (Inr u, st1)"
    and "io (TarExtract src dst) (tar_extract env src dst) st1 = (Inr v, st2)"
    and "fs_walk env dst (world st2) = (answers, w)"
    and "deleteAfterUnzip this \<longrightarrow>
           \<not> isl (fst (io (Remove src) (fs_remove env src)
                         (emit (SuccessfullyExtracted (basename src) (snd (getDirectoryStats answers))
                                  (fst (getDirectoryStats answers)))
                            \<lparr>world = w, trace = trace st2 @ [IO (Walk dst) True]\<rparr>)))"
  shows "(\<exists>st'. extractTgzFile env this src dst attempt st =
             (Extracted (basename src) src dst (snd (getDirectoryStats answers))
                (fst (getDirectoryStats answers)), st')
           \<and> filter retry_event (trace st') =
               filter retry_event (trace st) @ [Log (StartingExtraction (basename src) dst attempt)])
       \<and> getDirectoryStats (Unreadable e) = (0, 0)
       \<and> walk_items ((name, Directory (Unreadable e)) # rest) acc = walk_items rest acc
       \<and> ((\<forall>entry \<in> set before. \<forall>x. snd entry \<noteq> RegularFile (Inl x)) \<longrightarrow>
            getDirectoryStats (Entries (before @ (name, RegularFile (Inl e)) # rest))
              = getDirectoryStats (Entries before))"
proof -
  from extract_try_after_walk [OF assms] obtain st' where
    t: "extract_try env this src dst attempt st =
           (Inr (Extracted (basename src) src dst (snd (getDirectoryStats answers))
                   (fst (getDirectoryStats answers))), st')"
    by blast
  have run: "extractTgzFile env this src dst attempt st =
             (Extracted (basename src) src dst (snd (getDirectoryStats answers))
                (fst (getDirectoryStats answers)), st')"
    by (rule extractTgzFile_returns [OF t])
  have sub: "walk_items ((name, Directory (Unreadable e)) # rest) acc = walk_items rest acc"
    by (cases acc) simp
  have partial: "getDirectoryStats (Entries (before @ (name, RegularFile (Inl e)) # rest))
              = getDirectoryStats (Entries before)"
    if "\<forall>entry \<in> set before. \<forall>x. snd entry \<noteq> RegularFile (Inl x)"
    using walk_items_append [OF that] by simp
  from run retry_events_extract_try [OF t] sub partial show ?thesis
    by simp
qed

text \<open>
  Witness: the destination directory cannot be read after the unpacking; its first entry
  can be read and the \<^verbatim>\<open>stat\<close> of the second fails. The extraction succeeds at its first
  attempt, with the counts zero.
\<close>

theorem walk_errors_are_caught_witness:
  "fst (extractTgzFile env_unreadable cfg ''/src/a.tgz'' ''/dst/a'' 1 start)
     = Extracted ''a.tgz'' ''/src/a.tgz'' ''/dst/a'' 0 0
   \<and> filter retry_event (trace (snd (extractTgzFile env_unreadable cfg ''/src/a.tgz'' ''/dst/a'' 1 start)))
     = [Log (StartingExtraction ''a.tgz'' ''/dst/a'' 1)]
   \<and> getDirectoryStats (Entries [(''f'', RegularFile (Inr 7)), (''g'', RegularFile (Inl (Error ''EIO''))),
                                 (''h'', RegularFile (Inr 9))]) = (7, 1)"
proof -
  let ?src = "''/src/a.tgz''" and ?dst = "''/dst/a''"
  let ?s1 = "\<lparr>world = 0::nat, trace = [Log (StartingExtraction ''a.tgz'' ?dst 1),
                                        IO (EnsureDir ?dst) True]\<rparr>"
  let ?s2 = "\<lparr>world = 0::nat, trace = [Log (StartingExtraction ''a.tgz'' ?dst 1),
                                        IO (EnsureDir ?dst) True, IO (TarExtract ?src ?dst) True]\<rparr>"
  have base: "basename ?src = ''a.tgz''"
    by code_simp
  have a1: "io (EnsureDir ?dst) (fs_ensureDir env_unreadable ?dst)
              (emit (StartingExtraction (basename ?src) ?dst 1) start) = (Inr (), ?s1)"
    by code_simp
  have a2: "io (TarExtract ?src ?dst) (tar_extract env_unreadable ?src ?dst) ?s1 = (Inr (), ?s2)"
    by code_simp
  have a3: "fs_walk env_unreadable ?dst (world ?s2) = (Unreadable (Error ''EACCES''), 0)"
    by code_simp
  have a4: "deleteAfterUnzip cfg \<longrightarrow>
           \<not> isl (fst (io (Remove ?src) (fs_remove env_unreadable ?src)
                         (emit (SuccessfullyExtracted (basename ?src)
                                  (snd (getDirectoryStats (Unreadable (Error ''EACCES''))))
                                  (fst (getDirectoryStats (Unreadable (Error ''EACCES'')))))
                            \<lparr>world = 0, trace = trace ?s2 @ [IO (Walk ?dst) True]\<rparr>)))"
    by code_simp
  have none: "filter retry_event (trace start) = []"
    by (simp add: start_def)
  have nofail: "\<forall>entry \<in> set [(''f'', RegularFile (Inr (7::nat)))]. \<forall>x. snd entry \<noteq> RegularFile (Inl x)"
    by simp
  note w = walk_errors_are_caught [OF a1 a2 a3 a4, where e = "Error ''EIO''" and name = "''g''"
      and rest = "[(''h'', RegularFile (Inr 9))]" and before = "[(''f'', RegularFile (Inr 7))]"]
  from w have "\<exists>st'. extractTgzFile env_unreadable cfg ?src ?dst 1 start =
             (Extracted ''a.tgz'' ?src ?dst 0 0, st')
           \<and> filter retry_event (trace st') = [Log (StartingExtraction ''a.tgz'' ?dst 1)]"
    by (simp add: base none)
  moreover from w nofail
  have "getDirectoryStats (Entries [(''f'', RegularFile (Inr 7)), (''g'', RegularFile (Inl (Error ''EIO''))),
                                 (''h'', RegularFile (Inr 9))]) = (7, 1)"
    by simp
  ultimately show ?thesis
    by auto
qed

section \<open>C9: when the source archive is removed\<close>

lemma new_events_append: "trace st1 = trace st @ evs \<Longrightarrow> new_events st st1 = evs"
  by (simp add: new_events_def)

lemma extract_try_events:
  assumes "extract_try env this src dst attempt st = (res, st1)"
  shows "\<exists>evs. trace st1 = trace st @ evs
           \<and> (\<forall>p ok. IO (Remove p) ok \<in> set evs \<longrightarrow>
                 deleteAfterUnzip this \<and> p = src
               \<and> IO (TarExtract src dst) True \<in> set evs \<and> IO (Walk dst) True \<in> set evs)
           \<and> (isl res \<longrightarrow> (\<forall>p. IO (Remove p) True \<notin> set evs))"
proof (cases rule: extract_try_cases [of dst env src attempt st this])
  case (EnsureFailed e st1')
  with assms io_trace [OF EnsureFailed(1)] show ?thesis
    by (auto simp add: trace_emit)
next
  case (TarFailed u st1' e st2)
  with assms io_trace [OF TarFailed(1)] io_trace [OF TarFailed(2)] show ?thesis
    by (auto simp add: trace_emit)
next
  case (RemoveFailed u st1' v st2 answers w e st4)
  with assms io_trace [OF RemoveFailed(1)] io_trace [OF RemoveFailed(2)]
    io_trace [OF RemoveFailed(5)] show ?thesis
    by (auto simp add: trace_emit)
next
  case (Removed u st1' v st2 answers w x st4)
  with assms io_trace [OF Removed(1)] io_trace [OF Removed(2)]
    io_trace [OF Removed(5)] show ?thesis
    by (auto simp add: trace_emit)
next
  case (Kept u st1' v st2 answers w)
  with assms io_trace [OF Kept(1)] io_trace [OF Kept(2)] show ?thesis
    by (auto simp add: trace_emit)
qed

lemma extractTgzFile_events:
  "\<exists>evs. trace (snd (extractTgzFile env this src dst attempt st)) = trace st @ evs
         \<and> (\<forall>p ok. IO (Remove p) ok \<in> set evs \<longrightarrow>
               deleteAfterUnzip this \<and> p = src
             \<and> IO (TarExtract src dst) True \<in> set evs \<and> IO (Walk dst) True \<in> set evs)
         \<and> (\<forall>p. IO (Remove p) True \<in> set evs \<longrightarrow>
               extracted (fst (extractTgzFile env this src dst attempt st)))"
proof (induction env this src dst attempt st rule: extractTgzFile.induct)
  case (1 env this src dst attempt st)
  obtain res st1 where t: "extract_try env this src dst attempt st = (res, st1)"
    by (cases "extract_try env this src dst attempt st")
  from extract_try_events [OF t] obtain a where
    grown: "trace st1 = trace st @ a"
    and guarded: "\<forall>p ok. IO (Remove p) ok \<in> set a \<longrightarrow>
                 deleteAfterUnzip this \<and> p = src
               \<and> IO (TarExtract src dst) True \<in> set a \<and> IO (Walk dst) True \<in> set a"
    and kept: "isl res \<longrightarrow> (\<forall>p. IO (Remove p) True \<notin> set a)"
    by blast
  show ?case
  proof (cases res)
    case (Inr result)
    with t have run: "extractTgzFile env this src dst attempt st = (result, st1)"
      by (simp add: extractTgzFile_returns)
    from t Inr have "extracted result"
      by (simp add: extract_try_success)
    with run grown guarded show ?thesis
      by auto
  next
    case (Inl e)
    with kept have none: "\<forall>p. IO (Remove p) True \<notin> set a"
      by simp
    show ?thesis
    proof (cases "attempt < retryAttempts this")
      case False
      with t Inl have "extractTgzFile env this src dst attempt st =
          (ExtractFailed (message e) src, emit (FailedToExtract src attempt (message e)) st1)"
        by (simp add: extractTgzFile_gives_up)
      with grown guarded none show ?thesis
        by (auto simp add: trace_emit)
    next
      case True
      let ?next = "delay env (retryDelay this)
                     (emit (RetryingIn (retryDelay this))
                        (emit (FailedToExtract src attempt (message e)) st1))"
      have step: "extractTgzFile env this src dst attempt st =
          extractTgzFile env this src dst (attempt + 1) ?next"
        using t Inl True by (subst extractTgzFile.simps) simp
      from "1.IH" [OF t [symmetric] Inl True] obtain b where
        more: "trace (snd (extractTgzFile env this src dst (attempt + 1) ?next)) = trace ?next @ b"
        and guarded': "\<forall>p ok. IO (Remove p) ok \<in> set b \<longrightarrow>
                 deleteAfterUnzip this \<and> p = src
               \<and> IO (TarExtract src dst) True \<in> set b \<and> IO (Walk dst) True \<in> set b"
        and kept': "\<forall>p. IO (Remove p) True \<in> set b \<longrightarrow>
               extracted (fst (extractTgzFile env this src dst (attempt + 1) ?next))"
        by blast
      let ?evs = "a @ [Log (FailedToExtract src attempt (message e)), Log (RetryingIn (retryDelay this)),
                       IO (SetTimeout (retryDelay this)) True] @ b"
      have whole: "trace (snd (extractTgzFile env this src dst attempt st)) = trace st @ ?evs"
        unfolding step more using grown by (simp add: trace_emit delay_def)
      have g: "\<forall>p ok. IO (Remove p) ok \<in> set ?evs \<longrightarrow>
                 deleteAfterUnzip this \<and> p = src
               \<and> IO (TarExtract src dst) True \<in> set ?evs \<and> IO (Walk dst) True \<in> set ?evs"
        using guarded guarded' by auto
      have k: "\<forall>p. IO (Remove p) True \<in> set ?evs \<longrightarrow>
               extracted (fst (extractTgzFile env this src dst attempt st))"
        unfolding step using none kept' by auto
      from whole g k show ?thesis
        by blast
    qed
  qed
qed

text \<open>
  C9. \<^verbatim>\<open>fs.remove\<close> is called only on the source archive, only when \<^verbatim>\<open>deleteAfterUnzip\<close> is
  set, and only in an attempt in which \<^verbatim>\<open>tar.extract\<close> has returned without error and the walk
  has returned; this holds for each attempt and for the operation as a whole. An attempt that
  ends in a caught error has removed nothing, and an operation that returns the failure
  object has removed nothing in any of its attempts. Removing means a call of \<^verbatim>\<open>fs.remove\<close>
  that returns without error.
\<close>

theorem source_kept_unless_extracted:
  assumes "extractTgzFile env this src dst attempt st = (r, st')"
  shows "(\<forall>p ok. IO (Remove p) ok \<in> set (new_events st st') \<longrightarrow>
            deleteAfterUnzip this \<and> p = src
          \<and> IO (TarExtract src dst) True \<in> set (new_events st st')
          \<and> IO (Walk dst) True \<in> set (new_events st st'))
       \<and> (\<not> extracted r \<longrightarrow> (\<forall>p. IO (Remove p) True \<notin> set (new_events st st')))
       \<and> (\<forall>res st1. extract_try env this src dst attempt st = (res, st1) \<longrightarrow>
            (\<forall>p ok. IO (Remove p) ok \<in> set (new_events st st1) \<longrightarrow>
                deleteAfterUnzip this \<and> p = src
              \<and> IO (TarExtract src dst) True \<in> set (new_events st st1)
              \<and> IO (Walk dst) True \<in> set (new_events st st1))
          \<and> (isl res \<longrightarrow> (\<forall>p. IO (Remove p) True \<notin> set (new_events st st1))))"
proof -
  from extractTgzFile_events [of env this src dst attempt st] assms
  obtain evs where "trace st' = trace st @ evs"
    and "\<forall>p ok. IO (Remove p) ok \<in> set evs \<longrightarrow>
               deleteAfterUnzip this \<and> p = src
             \<and> IO (TarExtract src dst) True \<in> set evs \<and> IO (Walk dst) True \<in> set evs"
    and "\<forall>p. IO (Remove p) True \<in> set evs \<longrightarrow> extracted r"
    by auto
  then have whole: "(\<forall>p ok. IO (Remove p) ok \<in> set (new_events st st') \<longrightarrow>
            deleteAfterUnzip this \<and> p = src
          \<and> IO (TarExtract src dst) True \<in> set (new_events st st')
          \<and> IO (Walk dst) True \<in> set (new_events st st'))
       \<and> (\<not> extracted r \<longrightarrow> (\<forall>p. IO (Remove p) True \<notin> set (new_events st st')))"
    by (auto simp add: new_events_append)
  have each: "(\<forall>p ok. IO (Remove p) ok \<in> set (new_events st st1) \<longrightarrow>
                deleteAfterUnzip this \<and> p = src
              \<and> IO (TarExtract src dst) True \<in> set (new_events st st1)
              \<and> IO (Walk dst) True \<in> set (new_events st st1))
          \<and> (isl res \<longrightarrow> (\<forall>p. IO (Remove p) True \<notin> set (new_events st st1)))"
    if "extract_try env this src dst attempt st = (res, st1)" for res st1
  proof -
    from extract_try_events [OF that] obtain a where
      grown: "trace st1 = trace st @ a"
      and guarded: "\<forall>p ok. IO (Remove p) ok \<in> set a \<longrightarrow>
                 deleteAfterUnzip this \<and> p = src
               \<and> IO (TarExtract src dst) True \<in> set a \<and> IO (Walk dst) True \<in> set a"
      and kept: "isl res \<longrightarrow> (\<forall>p. IO (Remove p) True \<notin> set a)"
      by blast
    from guarded kept show ?thesis
      unfolding new_events_append [OF grown] by blast
  qed
  from whole each show ?thesis
    by blast
qed

text \<open>
  Witness, with \<^verbatim>\<open>deleteAfterUnzip\<close> set: the archive that never unpacks is not removed; the
  archive that unpacks is removed, after the unpacking and the walk.
\<close>

theorem source_kept_unless_extracted_witness:
  "fst (extractTgzFile env_corrupt cfg ''/src/a.tgz'' ''/dst/a'' 1 start)
     = ExtractFailed ''TAR_BAD_ARCHIVE'' ''/src/a.tgz''
   \<and> IO (Remove ''/src/a.tgz'') True
       \<notin> set (new_events start (snd (extractTgzFile env_corrupt cfg ''/src/a.tgz'' ''/dst/a'' 1 start)))
   \<and> IO (Remove ''/src/a.tgz'') True
       \<in> set (new_events start (snd (extractTgzFile env_present cfg ''/src/a.tgz'' ''/dst/a'' 1 start)))
   \<and> deleteAfterUnzip cfg
   \<and> IO (TarExtract ''/src/a.tgz'' ''/dst/a'') True
       \<in> set (new_events start (snd (extractTgzFile env_present cfg ''/src/a.tgz'' ''/dst/a'' 1 start)))
   \<and> IO (Walk ''/dst/a'') True
       \<in> set (new_events start (snd (extractTgzFile env_present cfg ''/src/a.tgz'' ''/dst/a'' 1 start)))"
proof -
  let ?src = "''/src/a.tgz''" and ?dst = "''/dst/a''"
  have bad: "extractTgzFile env_corrupt cfg ?src ?dst 1 start =
      (fst (extractTgzFile env_corrupt cfg ?src ?dst 1 start),
       snd (extractTgzFile env_corrupt cfg ?src ?dst 1 start))"
    and good: "extractTgzFile env_present cfg ?src ?dst 1 start =
      (fst (extractTgzFile env_present cfg ?src ?dst 1 start),
       snd (extractTgzFile env_present cfg ?src ?dst 1 start))"
    by simp_all
  have failed: "fst (extractTgzFile env_corrupt cfg ?src ?dst 1 start)
      = ExtractFailed ''TAR_BAD_ARCHIVE'' ?src"
    by code_simp
  have removed: "IO (Remove ?src) True
       \<in> set (new_events start (snd (extractTgzFile env_present cfg ?src ?dst 1 start)))"
    by code_simp
  from source_kept_unless_extracted [OF bad] failed
  have kept: "IO (Remove ?src) True
       \<notin> set (new_events start (snd (extractTgzFile env_corrupt cfg ?src ?dst 1 start)))"
    by simp
  from source_kept_unless_extracted [OF good] removed
  have "deleteAfterUnzip cfg
     \<and> IO (TarExtract ?src ?dst) True
         \<in> set (new_events start (snd (extractTgzFile env_present cfg ?src ?dst 1 start)))
     \<and> IO (Walk ?dst) True
         \<in> set (new_events start (snd (extractTgzFile env_present cfg ?src ?dst 1 start)))"
    by blast
  with failed kept removed show ?thesis
    by blast
qed

section \<open>C8: discovery of the archives and their destination directories\<close>













lemma join_slash_snoc:
  "join_slash (xs @ [s]) = (if xs = [] then s else join_slash xs @ ''/'' @ s)"
  by (induction xs rule: join_slash.induct) simp_all

lemma join_slash_empty: "join_slash xs = [] \<Longrightarrow> s \<noteq> [] \<Longrightarrow> join_slash (xs @ [s]) \<noteq> []"
  by (simp add: join_slash_snoc)






end
